theory Spec2Isabelle
  imports Complex_Main "HOL-Library.Sublist"
begin

section \<open>Python strings\<close>

text \<open>
  A Python \<open>str\<close> is modelled as a \<open>string\<close>, one \<open>char\<close> per code point; the
  model therefore covers text whose code points are below 256. \<open>py_isspace\<close> is
  \<open>str.isspace\<close> on that range, the set \<open>str.strip()\<close> removes.
\<close>

definition py_isspace :: "char \<Rightarrow> bool" where
  "py_isspace c = (of_char c \<in> {9, 10, 11, 12, 13, 28, 29, 30, 31, 32, 133, 160 :: nat})"

definition strip_by :: "(char \<Rightarrow> bool) \<Rightarrow> string \<Rightarrow> string" where
  "strip_by P s = rev (dropWhile P (rev (dropWhile P s)))"

text \<open>\<open>s.strip()\<close> and \<open>s.strip(chars)\<close>.\<close>

definition py_strip :: "string \<Rightarrow> string" where
  "py_strip s = strip_by py_isspace s"

definition py_strip_chars :: "string \<Rightarrow> string \<Rightarrow> string" where
  "py_strip_chars cs s = strip_by (\<lambda>c. c \<in> set cs) s"

text \<open>
  \<open>s.replace(old, new)\<close>: the occurrences of \<open>old\<close> are found from the left and do
  not overlap; an empty \<open>old\<close> matches before every character and at the end.
\<close>

function py_replace :: "string \<Rightarrow> string \<Rightarrow> string \<Rightarrow> string" where
  "py_replace old new s =
     (if old = [] then new @ concat (map (\<lambda>c. c # new) s)
      else if s = [] then []
      else if prefix old s then new @ py_replace old new (drop (length old) s)
      else hd s # py_replace old new (tl s))"
  by pat_completeness auto
termination
  by (relation "measure (\<lambda>(old, new, s). length s)") auto

declare py_replace.simps [simp del]

text \<open>\<open>sep.join(xs)\<close>.\<close>

fun py_join :: "string \<Rightarrow> string list \<Rightarrow> string" where
  "py_join sep [] = []"
| "py_join sep [x] = x"
| "py_join sep (x # y # ys) = x @ sep @ py_join sep (y # ys)"

text \<open>\<open>str(n)\<close> of an integer: its decimal digits, with a minus sign when negative.\<close>

definition digit_char :: "nat \<Rightarrow> char" where
  "digit_char d = ''0123456789'' ! d"

fun str_of_nat :: "nat \<Rightarrow> string" where
  "str_of_nat n =
     (if n < 10 then [digit_char n] else str_of_nat (n div 10) @ [digit_char (n mod 10)])"

declare str_of_nat.simps [simp del]

definition py_str_int :: "int \<Rightarrow> string" where
  "py_str_int i = (if i < 0 then ''-'' @ str_of_nat (nat (- i)) else str_of_nat (nat i))"

text \<open>\<open>str(b)\<close> of a Python \<open>bool\<close>, which is what an f-string field \<open>{b}\<close> prints.\<close>

definition py_str_bool :: "bool \<Rightarrow> string" where
  "py_str_bool b = (if b then ''True'' else ''False'')"

text \<open>
  A Python number is an \<open>int\<close> or a \<open>float\<close>. Floats are modelled by the reals they
  stand for; how Python prints one (\<open>repr\<close>) is a parameter \<open>fr\<close> of every function
  that formats a number.
\<close>

datatype pynum = PyInt int | PyFloat real

fun num_val :: "pynum \<Rightarrow> real" where
  "num_val (PyInt i) = of_int i"
| "num_val (PyFloat r) = r"

fun py_str_num :: "(real \<Rightarrow> string) \<Rightarrow> pynum \<Rightarrow> string" where
  "py_str_num fr (PyInt i) = py_str_int i"
| "py_str_num fr (PyFloat r) = fr r"

fun py_sub :: "pynum \<Rightarrow> pynum \<Rightarrow> pynum" where
  "py_sub (PyInt a) (PyInt b) = PyInt (a - b)"
| "py_sub a b = PyFloat (num_val a - num_val b)"

section \<open>pipe.py: the receive loop of AudacityPipe\<close>

datatype error = AudacityError string

text \<open>
  One iteration of the \<open>while True\<close> loop of \<open>receive_response\<close> reads one line. The
  channel is the list of what the successive \<open>readline()\<close> calls return, each with
  the wall clock (\<open>time.time()\<close>) of that iteration; the empty string is Python's
  "no data". When the list is used up the loop has neither returned nor raised: it is
  still reading, which is the result \<open>None\<close>.
\<close>

fun receive_loop ::
  "real \<Rightarrow> real \<Rightarrow> (string \<times> real) list \<Rightarrow> string \<Rightarrow> (error + string) option" where
  "receive_loop timeout start_time [] response = None"
| "receive_loop timeout start_time ((line, now) # reads) response =
     (if line = [] then
        (if now - start_time > timeout
         then Some (Inl (AudacityError ''Timeout waiting for response''))
         else receive_loop timeout start_time reads response)
      else if py_strip line = [] then
        (if response = [] then receive_loop timeout start_time reads response
         else Some (Inr response))
      else receive_loop timeout start_time reads (response @ line))"

definition status_sentinel :: string where
  "status_sentinel = ''BatchCommand finished: OK''"

text \<open>The two clean-up lines after the loop.\<close>

definition clean_response :: "string \<Rightarrow> string" where
  "clean_response response = py_strip (py_replace status_sentinel [] (py_strip response))"

text \<open>
  \<open>receive_response\<close>: the two checks before the \<open>try\<close>, the loop, the clean-up, and
  the handler that wraps whatever the \<open>try\<close> block raised.
\<close>

definition receive_response ::
  "bool \<Rightarrow> bool \<Rightarrow> real \<Rightarrow> real \<Rightarrow> (string \<times> real) list \<Rightarrow> (error + string) option" where
  "receive_response is_connected from_pipe timeout start_time reads =
     (if is_connected then
        (if from_pipe then
           (case receive_loop timeout start_time reads [] of
              None \<Rightarrow> None
            | Some (Inl (AudacityError e)) \<Rightarrow>
                Some (Inl (AudacityError (''Failed to receive response: '' @ e)))
            | Some (Inr response) \<Rightarrow> Some (Inr (clean_response response)))
         else Some (Inl (AudacityError ''From-pipe not available'')))
      else Some (Inl (AudacityError ''Not connected to Audacity'')))"

section \<open>commands.py: the text of the commands\<close>

text \<open>
  Each method of \<open>Commands\<close> builds a command text and hands it to \<open>do_command\<close>.
  The functions below are the texts, under the methods' names.
\<close>

definition opt_param :: "string \<Rightarrow> ('a \<Rightarrow> string) \<Rightarrow> 'a option \<Rightarrow> string list" where
  "opt_param key render v = (case v of None \<Rightarrow> [] | Some x \<Rightarrow> [key @ ''='' @ render x])"

text \<open>The field \<open>{1 if b else 0}\<close>.\<close>

definition one_if :: "bool \<Rightarrow> string" where
  "one_if b = py_str_int (if b then 1 else 0)"

definition with_params :: "string \<Rightarrow> string list \<Rightarrow> string" where
  "with_params verb params = verb @ (if params = [] then [] else '' '' @ py_join '' '' params)"

definition open_project :: "string \<Rightarrow> bool \<Rightarrow> string" where
  "open_project filename add_to_history =
     ''OpenProject2: Filename='' @ [CHR 0x27] @ filename @ [CHR 0x27]
       @ '' AddToHistory='' @ py_str_bool add_to_history"

definition save_project :: "string \<Rightarrow> bool \<Rightarrow> bool \<Rightarrow> string" where
  "save_project filename add_to_history compress =
     ''SaveProject2: Filename='' @ [CHR 0x27] @ filename @ [CHR 0x27]
       @ '' AddToHistory='' @ py_str_bool add_to_history
       @ '' Compress='' @ py_str_bool compress"

definition export_audio :: "string \<Rightarrow> int \<Rightarrow> string" where
  "export_audio filename num_channels =
     (let safe_path = py_replace [CHR 0x5C] ''/'' filename
      in ''Export2: Filename='' @ [CHR 0x22] @ safe_path @ [CHR 0x22]
           @ '' NumChannels='' @ py_str_int num_channels)"

definition select_all :: string where
  "select_all = ''SelectAll:''"

definition select_none :: string where
  "select_none = ''SelectNone:''"

definition select_time :: "(real \<Rightarrow> string) \<Rightarrow> pynum \<Rightarrow> pynum \<Rightarrow> string \<Rightarrow> string" where
  "select_time fr start end relative_to =
     ''SelectTime: Start='' @ py_str_num fr start @ '' End='' @ py_str_num fr end
       @ '' RelativeTo='' @ relative_to"

definition select_tracks :: "int \<Rightarrow> int \<Rightarrow> string \<Rightarrow> string" where
  "select_tracks track track_count mode =
     ''SelectTracks: Track='' @ py_str_int track @ '' TrackCount='' @ py_str_int track_count
       @ '' Mode='' @ mode"

definition set_track_status :: "string option \<Rightarrow> bool option \<Rightarrow> bool option \<Rightarrow> string" where
  "set_track_status name selected focused =
     with_params ''SetTrackStatus:''
       (opt_param ''Name'' (\<lambda>n. [CHR 0x27] @ n @ [CHR 0x27]) name
        @ opt_param ''Selected'' one_if selected
        @ opt_param ''Focused'' one_if focused)"

definition set_track_audio ::
  "(real \<Rightarrow> string) \<Rightarrow> bool option \<Rightarrow> bool option \<Rightarrow> pynum option \<Rightarrow> pynum option \<Rightarrow> string" where
  "set_track_audio fr mute solo gain pan =
     with_params ''SetTrackAudio:''
       (opt_param ''Mute'' one_if mute
        @ opt_param ''Solo'' one_if solo
        @ opt_param ''Gain'' (py_str_num fr) gain
        @ opt_param ''Pan'' (py_str_num fr) pan)"

definition set_envelope ::
  "(real \<Rightarrow> string) \<Rightarrow> pynum option \<Rightarrow> pynum option \<Rightarrow> bool option \<Rightarrow> string" where
  "set_envelope fr time val delete =
     with_params ''SetEnvelope:''
       (opt_param ''Time'' (py_str_num fr) time
        @ opt_param ''Value'' (py_str_num fr) val
        @ opt_param ''Delete'' one_if delete)"

definition set_preference :: "string \<Rightarrow> string \<Rightarrow> bool \<Rightarrow> string" where
  "set_preference name val reload =
     ''SetPreference: Name='' @ [CHR 0x27] @ name @ [CHR 0x27]
       @ '' Value='' @ [CHR 0x27] @ val @ [CHR 0x27]
       @ '' Reload='' @ one_if reload"

definition normalize :: "(real \<Rightarrow> string) \<Rightarrow> pynum \<Rightarrow> bool \<Rightarrow> bool \<Rightarrow> bool \<Rightarrow> string" where
  "normalize fr peak_level apply_gain remove_dc stereo_independent =
     ''Normalize: PeakLevel='' @ py_str_num fr peak_level
       @ '' ApplyGain='' @ py_str_bool apply_gain
       @ '' RemoveDcOffset='' @ py_str_bool remove_dc
       @ '' StereoIndependent='' @ py_str_bool stereo_independent"

definition new_stereo_track :: string where
  "new_stereo_track = ''NewStereoTrack:''"

definition copy :: string where
  "copy = ''Copy:''"

definition paste :: string where
  "paste = ''Paste:''"

definition delete :: string where
  "delete = ''Delete:''"

definition get_info :: "string \<Rightarrow> string \<Rightarrow> string" where
  "get_info info_type format_type = ''GetInfo: Type='' @ info_type"

section \<open>export_clips_individually.py: file names\<close>

text \<open>
  Lines 28 to 48, \<open>sanitize_filename\<close>: the nine characters of the regular
  expression's class become underscores, dots and spaces are stripped from both ends,
  the name is cut to 200 characters, and an empty name becomes \<open>unnamed\<close>.
\<close>

definition invalid_chars :: string where
  "invalid_chars = ''<>:'' @ [CHR 0x22] @ ''/'' @ [CHR 0x5C] @ ''|?*''"

definition sanitize_filename :: "string \<Rightarrow> string" where
  "sanitize_filename name0 =
     (let name1 = map (\<lambda>c. if c \<in> set invalid_chars then CHR ''_'' else c) name0;
          name2 = py_strip_chars ''. '' name1;
          name3 = (if length name2 > 200 then take 200 name2 else name2);
          name4 = (if name3 = [] then ''unnamed'' else name3)
      in name4)"

text \<open>
  \<open>os.path.join\<close> with two arguments, as \<open>posixpath\<close> defines it, and
  \<open>os.path.exists\<close> over the paths that exist on the destination file system.
\<close>

definition os_path_join :: "string \<Rightarrow> string \<Rightarrow> string" where
  "os_path_join a b =
     (if b \<noteq> [] \<and> hd b = CHR ''/'' then b
      else if a = [] \<or> last a = CHR ''/'' then a @ b
      else a @ ''/'' @ b)"

definition os_path_exists :: "string list \<Rightarrow> string \<Rightarrow> bool" where
  "os_path_exists files p = (p \<in> set files)"

text \<open>
  Lines 212 to 215 and 223 to 226: the file name, without and with a counter. The
  source's \<open>prefix\<close> is written \<open>pfx\<close> here.
\<close>

definition output_filename :: "string \<Rightarrow> string \<Rightarrow> string \<Rightarrow> string" where
  "output_filename pfx safe_name file_extension =
     (if pfx \<noteq> [] then pfx @ safe_name @ ''.'' @ file_extension
      else safe_name @ ''.'' @ file_extension)"

definition numbered_filename :: "string \<Rightarrow> string \<Rightarrow> nat \<Rightarrow> string \<Rightarrow> string" where
  "numbered_filename pfx safe_name counter file_extension =
     (if pfx \<noteq> [] then pfx @ safe_name @ ''_'' @ py_str_int (int counter) @ ''.'' @ file_extension
      else safe_name @ ''_'' @ py_str_int (int counter) @ ''.'' @ file_extension)"

text \<open>
  Lines 222 to 228: the \<open>while os.path.exists(output_path)\<close> loop. Nothing in the source
  bounds it, so it is a partial function: \<open>None\<close> is a loop that never ends.
\<close>

partial_function (option) resolve_collision ::
  "string list \<Rightarrow> string \<Rightarrow> string \<Rightarrow> string \<Rightarrow> string \<Rightarrow> string \<Rightarrow> nat \<Rightarrow> string option" where
  [code]: "resolve_collision files output_dir pfx safe_name file_extension output_path counter =
     (if os_path_exists files output_path
      then resolve_collision files output_dir pfx safe_name file_extension
             (os_path_join output_dir (numbered_filename pfx safe_name counter file_extension))
             (counter + 1)
      else Some output_path)"

text \<open>Lines 212 to 228 together: the path the clip is exported to.\<close>

definition unique_output_path ::
  "string list \<Rightarrow> string \<Rightarrow> string \<Rightarrow> string \<Rightarrow> string \<Rightarrow> string option" where
  "unique_output_path files output_dir pfx safe_name file_extension =
     resolve_collision files output_dir pfx safe_name file_extension
       (os_path_join output_dir (output_filename pfx safe_name file_extension)) 1"

section \<open>The host application and the pipe, as the workflows see them\<close>

text \<open>
  The replies to \<open>GetInfo\<close> are JSON arrays of objects; \<open>json.loads\<close> turns them into
  lists of dictionaries, of which the workflows read the keys below with \<open>.get\<close>. A key
  that is absent is \<open>None\<close>.
\<close>

record track =
  t_name :: "string option"
  t_mute :: "int option"

record clip =
  c_name :: "string option"
  c_track :: "int option"
  c_start :: "pynum option"
  c_end :: "pynum option"

text \<open>
  The calls the two workflows make on \<open>Commands\<close>, and the text each of them sends
  (\<open>get_info\<close> is always called with its default format).
\<close>

datatype request =
    Get_info string
  | Select_tracks int int string
  | Set_track_audio "bool option" "bool option" "pynum option" "pynum option"
  | Select_all
  | Select_none
  | Select_time pynum pynum string
  | Export_audio string int
  | New_stereo_track
  | Copy
  | Paste
  | Delete

fun wire :: "(real \<Rightarrow> string) \<Rightarrow> request \<Rightarrow> string" where
  "wire fr (Get_info info_type) = get_info info_type ''JSON''"
| "wire fr (Select_tracks track track_count mode) = select_tracks track track_count mode"
| "wire fr (Set_track_audio mute solo gain pan) = set_track_audio fr mute solo gain pan"
| "wire fr Select_all = select_all"
| "wire fr Select_none = select_none"
| "wire fr (Select_time start end relative_to) = select_time fr start end relative_to"
| "wire fr (Export_audio filename num_channels) = export_audio filename num_channels"
| "wire fr New_stereo_track = new_stereo_track"
| "wire fr Copy = copy"
| "wire fr Paste = paste"
| "wire fr Delete = delete"

text \<open>
  Audacity itself is not part of the repository. Its model keeps what the workflows
  depend on: the tracks with their mute flags, the clips, which tracks are selected, and
  the files on disk. \<open>SelectTracks\<close> with mode \<open>Set\<close> selects the given range,
  \<open>SetTrackAudio\<close> sets the mute flag of the selected tracks, \<open>NewStereoTrack\<close> adds
  a track at the end, \<open>Export2\<close> writes the file; \<open>GetInfo\<close> reports the tracks or the
  clips.
\<close>

record host =
  tracks :: "track list"
  clips :: "clip list"
  selected :: "nat list"
  files :: "string list"

datatype reply = Tracks_json "track list" | Clips_json "clip list" | Not_json

definition set_mute :: "bool \<Rightarrow> host \<Rightarrow> host" where
  "set_mute b h =
     h\<lparr>tracks := map (\<lambda>(i, t). if i \<in> set (selected h) then t\<lparr>t_mute := Some (if b then 1 else 0)\<rparr> else t)
                    (enumerate 0 (tracks h))\<rparr>"

fun host_exec :: "request \<Rightarrow> host \<Rightarrow> host" where
  "host_exec (Select_tracks track track_count mode) h =
     (if mode = ''Set''
      then h\<lparr>selected := filter (\<lambda>i. track \<le> int i \<and> int i < track + track_count)
                             [0..<length (tracks h)]\<rparr>
      else h)"
| "host_exec (Set_track_audio mute solo gain pan) h =
     (case mute of None \<Rightarrow> h | Some b \<Rightarrow> set_mute b h)"
| "host_exec Select_all h = h\<lparr>selected := [0..<length (tracks h)]\<rparr>"
| "host_exec Select_none h = h\<lparr>selected := []\<rparr>"
| "host_exec New_stereo_track h =
     h\<lparr>tracks := tracks h @ [\<lparr>t_name = Some ''Audio Track'', t_mute = Some 0\<rparr>],
        selected := [length (tracks h)]\<rparr>"
| "host_exec (Export_audio filename num_channels) h =
     h\<lparr>files := py_replace [CHR 0x5C] ''/'' filename # files h\<rparr>"
| "host_exec req h = h"

fun host_reply :: "request \<Rightarrow> host \<Rightarrow> reply" where
  "host_reply (Get_info info_type) h =
     (if info_type = ''Tracks'' then Tracks_json (tracks h)
      else if info_type = ''Clips'' then Clips_json (clips h)
      else Not_json)"
| "host_reply req h = Not_json"

text \<open>
  What happens to one \<open>do_command\<close> is decided by the environment: the command is
  answered, or \<open>send_command\<close> raises (nothing reaches Audacity), or
  \<open>receive_response\<close> raises (Audacity has run the command, the answer is lost, as in
  a timeout), or the answer is not JSON. The world holds the outcomes of the commands to
  come (when the list is used up, commands are answered), the texts sent so far and the
  messages the clip workflow printed about clips.
\<close>

datatype fault = Ok | Send_fails | Receive_fails | Garbled

datatype diag =
    Skipped_muted clip
  | Skipped_invalid clip
  | Exported clip string
  | Export_failed clip

record world =
  app :: host
  pipes_exist :: bool
  script :: "fault list"
  sent :: "string list"
  printed :: "diag list"

definition next_fault :: "world \<Rightarrow> fault" where
  "next_fault w = (case script w of [] \<Rightarrow> Ok | f # fs \<Rightarrow> f)"

definition delivered :: "(real \<Rightarrow> string) \<Rightarrow> request \<Rightarrow> world \<Rightarrow> world" where
  "delivered fr req w =
     w\<lparr>script := tl (script w), sent := sent w @ [wire fr req], app := host_exec req (app w)\<rparr>"

definition do_command :: "(real \<Rightarrow> string) \<Rightarrow> request \<Rightarrow> world \<Rightarrow> (error + reply) \<times> world" where
  "do_command fr req w =
     (case next_fault w of
        Send_fails \<Rightarrow>
          (Inl (AudacityError (''Failed to send command '' @ [CHR 0x27] @ wire fr req @ [CHR 0x27])),
           w\<lparr>script := tl (script w)\<rparr>)
      | Receive_fails \<Rightarrow>
          (Inl (AudacityError ''Failed to receive response''), delivered fr req w)
      | Garbled \<Rightarrow> (Inr Not_json, delivered fr req w)
      | Ok \<Rightarrow> (Inr (host_reply req (app w)), delivered fr req w))"

text \<open>
  A stretch of calls whose results are not looked at runs until one of them raises.
\<close>

fun run_requests :: "(real \<Rightarrow> string) \<Rightarrow> request list \<Rightarrow> world \<Rightarrow> (error + unit) \<times> world" where
  "run_requests fr [] w = (Inr (), w)"
| "run_requests fr (req # reqs) w =
     (case do_command fr req w of
        (Inl e, w') \<Rightarrow> (Inl e, w')
      | (Inr r, w') \<Rightarrow> run_requests fr reqs w')"

definition json_tracks :: "reply \<Rightarrow> track list option" where
  "json_tracks r = (case r of Tracks_json ts \<Rightarrow> Some ts | _ \<Rightarrow> None)"

definition json_clips :: "reply \<Rightarrow> clip list option" where
  "json_clips r = (case r of Clips_json cs \<Rightarrow> Some cs | _ \<Rightarrow> None)"

section \<open>export_tracks_individually.py\<close>

text \<open>
  How a workflow ends: it ran to its last line, it returned early after a message, or a
  handler of the outer \<open>try\<close> called \<open>sys.exit(1)\<close>.
\<close>

datatype outcome = Finished | No_tracks | No_clips | No_unmuted_clips | Bad_json | Exit_1

text \<open>
  Lines 141 to 143 (with \<open>True\<close>) and 159 to 161 (with \<open>False\<close>): every track is selected
  alone and its mute flag set.
\<close>

definition set_mute_each :: "bool \<Rightarrow> nat \<Rightarrow> request list" where
  "set_mute_each b num_tracks =
     concat (map (\<lambda>j. [Select_tracks (int j) 1 ''Set'', Set_track_audio (Some b) None None None])
              [0..<num_tracks])"

text \<open>Lines 130 to 153: the body of the loop for the track numbered \<open>i\<close> (from 1).\<close>

definition track_requests :: "string \<Rightarrow> string \<Rightarrow> string \<Rightarrow> nat \<Rightarrow> nat \<Rightarrow> request list" where
  "track_requests output_dir base_filename file_extension num_tracks i =
     (let track_index = int i - 1;
          output_filename = base_filename @ ''_'' @ py_str_int (int i) @ ''.'' @ file_extension;
          output_path = os_path_join output_dir output_filename
      in set_mute_each True num_tracks
         @ [Select_tracks track_index 1 ''Set'', Set_track_audio (Some False) None None None,
            Select_all, Export_audio output_path 2])"

text \<open>
  Lines 129 to 155: the loop has no \<open>try\<close> of its own, so an exception in its body
  leaves the loop.
\<close>

fun export_tracks_loop ::
  "(real \<Rightarrow> string) \<Rightarrow> string \<Rightarrow> string \<Rightarrow> string \<Rightarrow> nat \<Rightarrow> (nat \<times> track) list \<Rightarrow> world
     \<Rightarrow> (error + unit) \<times> world" where
  "export_tracks_loop fr output_dir base_filename file_extension num_tracks [] w = (Inr (), w)"
| "export_tracks_loop fr output_dir base_filename file_extension num_tracks ((i, track) # rest) w =
     (case run_requests fr (track_requests output_dir base_filename file_extension num_tracks i) w of
        (Inl e, w') \<Rightarrow> (Inl e, w')
      | (Inr u, w') \<Rightarrow>
          export_tracks_loop fr output_dir base_filename file_extension num_tracks rest w')"

text \<open>
  Lines 96 to 179. An \<open>AudacityError\<close> anywhere, also in opening the pipes, reaches the
  outer handler, which exits with status 1; a reply that is not JSON returns early.
\<close>

definition export_tracks_individually ::
  "(real \<Rightarrow> string) \<Rightarrow> string \<Rightarrow> string \<Rightarrow> string \<Rightarrow> world \<Rightarrow> outcome \<times> world" where
  "export_tracks_individually fr output_dir base_filename file_extension w =
     (if pipes_exist w then
        (case do_command fr (Get_info ''Tracks'') w of
           (Inl e, w1) \<Rightarrow> (Exit_1, w1)
         | (Inr tracks_info, w1) \<Rightarrow>
             (case json_tracks tracks_info of
                None \<Rightarrow> (Bad_json, w1)
              | Some tracks_data \<Rightarrow>
                  (let num_tracks = length tracks_data in
                   if num_tracks = 0 then (No_tracks, w1)
                   else
                     (case export_tracks_loop fr output_dir base_filename file_extension
                             num_tracks (enumerate 1 tracks_data) w1 of
                        (Inl e, w2) \<Rightarrow> (Exit_1, w2)
                      | (Inr u, w2) \<Rightarrow>
                          (case run_requests fr (set_mute_each False num_tracks) w2 of
                             (Inl e, w3) \<Rightarrow> (Exit_1, w3)
                           | (Inr u', w3) \<Rightarrow> (Finished, w3))))))
      else (Exit_1, w))"

section \<open>export_clips_individually.py: the workflow\<close>

text \<open>Lines 134 to 136 and 161 to 162: the dictionary of mute flags and its lookup.\<close>

definition track_mute_status :: "track list \<Rightarrow> (int \<rightharpoonup> bool)" where
  "track_mute_status tracks_data =
     map_of (map (\<lambda>(i, track). (int i, (case t_mute track of None \<Rightarrow> 0 | Some m \<Rightarrow> m) = 1))
               (enumerate 0 tracks_data))"

definition is_muted :: "(int \<rightharpoonup> bool) \<Rightarrow> clip \<Rightarrow> bool" where
  "is_muted status clip =
     (let track_idx = (case c_track clip of None \<Rightarrow> 0 | Some t \<Rightarrow> t)
      in case status track_idx of None \<Rightarrow> False | Some m \<Rightarrow> m)"

text \<open>Lines 190 to 196: every track but the scratch track is muted.\<close>

definition setup_requests :: "nat \<Rightarrow> int \<Rightarrow> request list" where
  "setup_requests num_tracks temp_track_idx =
     concat (map (\<lambda>t. [Select_none, Select_tracks (int t) 1 ''Set'',
                        (if int t = temp_track_idx
                         then Set_track_audio (Some False) None None None
                         else Set_track_audio (Some True) None None None)])
              [0..<num_tracks])"

text \<open>Lines 200 to 204: what the loop reads from a clip, and its validity check.\<close>

definition clip_name :: "nat \<Rightarrow> clip \<Rightarrow> string" where
  "clip_name i clip = (case c_name clip of None \<Rightarrow> ''clip_'' @ py_str_int (int i) | Some n \<Rightarrow> n)"

definition track_idx :: "clip \<Rightarrow> int" where
  "track_idx clip = (case c_track clip of None \<Rightarrow> - 1 | Some t \<Rightarrow> t)"

definition start_time :: "clip \<Rightarrow> pynum" where
  "start_time clip = (case c_start clip of None \<Rightarrow> PyFloat (- 10) | Some s \<Rightarrow> s)"

definition end_time :: "clip \<Rightarrow> pynum" where
  "end_time clip = (case c_end clip of None \<Rightarrow> PyFloat (- 10) | Some e \<Rightarrow> e)"

definition invalid_data :: "clip \<Rightarrow> bool" where
  "invalid_data clip =
     (track_idx clip = - 1 \<or> num_val (start_time clip) < 0
      \<or> num_val (end_time clip) \<le> num_val (start_time clip))"

text \<open>Lines 236 to 263: the body of the \<open>try\<close> for one clip.\<close>

definition clip_requests :: "int \<Rightarrow> clip \<Rightarrow> string \<Rightarrow> request list" where
  "clip_requests temp_track_idx clip output_path =
     [Select_none, Select_tracks (track_idx clip) 1 ''Set'',
      Select_time (start_time clip) (end_time clip) ''ProjectStart'',
      Copy,
      Select_none, Select_tracks temp_track_idx 1 ''Set'',
      Select_time (PyInt 0) (PyInt 100) ''ProjectStart'',
      Delete,
      Select_none, Select_tracks temp_track_idx 1 ''Set'',
      Paste,
      Select_none, Select_tracks temp_track_idx 1 ''Set'',
      Select_time (PyInt 0) (py_sub (end_time clip) (start_time clip)) ''ProjectStart'',
      Export_audio output_path 2]"

text \<open>
  Lines 199 to 270: the loop over the clips to export. A clip with invalid data is passed
  over with a message; an exception in the \<open>try\<close> is caught, reported, and the loop goes
  on. The result is \<open>None\<close> only if the search for a free file name never ends.
\<close>

fun export_clips_loop ::
  "(real \<Rightarrow> string) \<Rightarrow> string \<Rightarrow> string \<Rightarrow> string \<Rightarrow> int \<Rightarrow> (nat \<times> clip) list \<Rightarrow> nat \<Rightarrow> world
     \<Rightarrow> (nat \<times> world) option" where
  "export_clips_loop fr output_dir pfx file_extension temp_track_idx [] exported_count w =
     Some (exported_count, w)"
| "export_clips_loop fr output_dir pfx file_extension temp_track_idx ((i, clip) # rest)
       exported_count w =
     (if invalid_data clip
      then export_clips_loop fr output_dir pfx file_extension temp_track_idx rest
             exported_count (w\<lparr>printed := printed w @ [Skipped_invalid clip]\<rparr>)
      else
        (case unique_output_path (files (app w)) output_dir pfx
                (sanitize_filename (clip_name i clip)) file_extension of
           None \<Rightarrow> None
         | Some output_path \<Rightarrow>
             (case run_requests fr (clip_requests temp_track_idx clip output_path) w of
                (Inl e, w') \<Rightarrow>
                  export_clips_loop fr output_dir pfx file_extension temp_track_idx rest
                    exported_count (w'\<lparr>printed := printed w' @ [Export_failed clip]\<rparr>)
              | (Inr u, w') \<Rightarrow>
                  export_clips_loop fr output_dir pfx file_extension temp_track_idx rest
                    (exported_count + 1)
                    (w'\<lparr>printed := printed w' @ [Exported clip output_path]\<rparr>))))"

text \<open>Lines 176 to 273: the scratch track, the muting pass and the loop.\<close>

definition export_staged ::
  "(real \<Rightarrow> string) \<Rightarrow> string \<Rightarrow> string \<Rightarrow> string \<Rightarrow> clip list \<Rightarrow> world
     \<Rightarrow> (outcome \<times> nat \<times> world) option" where
  "export_staged fr output_dir pfx file_extension clips_to_export w3 =
     (case do_command fr New_stereo_track w3 of
        (Inl e, w4) \<Rightarrow> Some (Exit_1, 0, w4)
      | (Inr r, w4) \<Rightarrow>
          (case do_command fr (Get_info ''Tracks'') w4 of
             (Inl e, w5) \<Rightarrow> Some (Exit_1, 0, w5)
           | (Inr tracks_info_updated, w5) \<Rightarrow>
               (case json_tracks tracks_info_updated of
                  None \<Rightarrow> Some (Exit_1, 0, w5)
                | Some tracks_data_updated \<Rightarrow>
                    (let temp_track_idx = int (length tracks_data_updated) - 1;
                         num_tracks = length tracks_data_updated
                     in case run_requests fr (setup_requests num_tracks temp_track_idx) w5 of
                          (Inl e, w6) \<Rightarrow> Some (Exit_1, 0, w6)
                        | (Inr u, w6) \<Rightarrow>
                            (case export_clips_loop fr output_dir pfx file_extension
                                    temp_track_idx (enumerate 1 clips_to_export) 0 w6 of
                               None \<Rightarrow> None
                             | Some (exported_count, w7) \<Rightarrow>
                                 Some (Finished, exported_count, w7))))))"

text \<open>Lines 158 to 172: the clips of muted tracks are left out, each with a message.\<close>

definition export_filtered ::
  "(real \<Rightarrow> string) \<Rightarrow> string \<Rightarrow> string \<Rightarrow> string \<Rightarrow> track list \<Rightarrow> clip list \<Rightarrow> world
     \<Rightarrow> (outcome \<times> nat \<times> world) option" where
  "export_filtered fr output_dir pfx file_extension tracks_data clips_data w2 =
     (let status = track_mute_status tracks_data;
          clips_to_export = filter (\<lambda>clip. \<not> is_muted status clip) clips_data;
          w3 = w2\<lparr>printed := printed w2
                   @ map Skipped_muted (filter (is_muted status) clips_data)\<rparr>
      in if clips_to_export = [] then Some (No_unmuted_clips, 0, w3)
         else export_staged fr output_dir pfx file_extension clips_to_export w3)"

text \<open>
  Lines 120 to 291. The first reply is parsed outside any inner \<open>try\<close>, so a reply that
  is not JSON reaches the outer handler; the reply with the clips is parsed inside one,
  which returns.
\<close>

definition export_clips_individually ::
  "(real \<Rightarrow> string) \<Rightarrow> string \<Rightarrow> string \<Rightarrow> string \<Rightarrow> world \<Rightarrow> (outcome \<times> nat \<times> world) option" where
  "export_clips_individually fr output_dir pfx file_extension w =
     (if pipes_exist w then
        (case do_command fr (Get_info ''Tracks'') w of
           (Inl e, w1) \<Rightarrow> Some (Exit_1, 0, w1)
         | (Inr tracks_info, w1) \<Rightarrow>
             (case json_tracks tracks_info of
                None \<Rightarrow> Some (Exit_1, 0, w1)
              | Some tracks_data \<Rightarrow>
                  (case do_command fr (Get_info ''Clips'') w1 of
                     (Inl e, w2) \<Rightarrow> Some (Exit_1, 0, w2)
                   | (Inr clips_info, w2) \<Rightarrow>
                       (case json_clips clips_info of
                          None \<Rightarrow> Some (Bad_json, 0, w2)
                        | Some clips_data \<Rightarrow>
                            (if clips_data = [] then Some (No_clips, 0, w2)
                             else export_filtered fr output_dir pfx file_extension
                                    tracks_data clips_data w2)))))
      else Some (Exit_1, 0, w))"

section \<open>Notions used to state the properties\<close>

text \<open>
  A blank line is a line that was read (so it is not the empty "no data") and that
  \<open>strip()\<close> empties. The content of a list of reads is what the loop accumulates from
  it: the lines that \<open>strip()\<close> does not empty, in order.
\<close>

definition is_blank :: "string \<Rightarrow> bool" where
  "is_blank l = (l \<noteq> [] \<and> py_strip l = [])"

definition content :: "(string \<times> real) list \<Rightarrow> string" where
  "content reads = concat (map fst (filter (\<lambda>(l, n). py_strip l \<noteq> []) reads))"

text \<open>The path tried with counter \<open>k\<close>.\<close>

abbreviation candidate :: "string \<Rightarrow> string \<Rightarrow> string \<Rightarrow> string \<Rightarrow> nat \<Rightarrow> string" where
  "candidate output_dir pfx safe_name file_extension k \<equiv>
     os_path_join output_dir (numbered_filename pfx safe_name k file_extension)"

text \<open>
  The world after a stretch of calls that were all answered, and the calls of the whole
  loop of the track workflow, in order.
\<close>

definition advance :: "(real \<Rightarrow> string) \<Rightarrow> request list \<Rightarrow> world \<Rightarrow> world" where
  "advance fr reqs w =
     w\<lparr>script := drop (length reqs) (script w), sent := sent w @ map (wire fr) reqs,
       app := fold host_exec reqs (app w)\<rparr>"

definition track_plan :: "string \<Rightarrow> string \<Rightarrow> string \<Rightarrow> track list \<Rightarrow> request list" where
  "track_plan output_dir base_filename file_extension tracks_data =
     concat (map (\<lambda>(i, track). track_requests output_dir base_filename file_extension
                                  (length tracks_data) i)
              (enumerate 1 tracks_data))"



text \<open>
  A project with two unmuted tracks, and a float format for runs in which no float is
  printed.
\<close>

definition two_tracks :: world where
  "two_tracks =
     \<lparr>app = \<lparr>tracks = [\<lparr>t_name = Some ''Drums'', t_mute = Some 0\<rparr>,
                       \<lparr>t_name = Some ''Bass'', t_mute = Some 0\<rparr>],
             clips = [], selected = [], files = []\<rparr>,
      pipes_exist = True, script = [], sent = [], printed = []\<rparr>"

definition no_repr :: "real \<Rightarrow> string" where
  "no_repr r = []"

text \<open>
  The mute flag of a track of the project is set when it is 1; an index that names no
  track of the project has no flag.
\<close>

definition muted_flag :: "track list \<Rightarrow> int \<Rightarrow> bool" where
  "muted_flag ts t = (0 \<le> t \<and> nat t < length ts \<and> t_mute (ts ! nat t) = Some 1)"

text \<open>
  What the two filters of the workflow ask of a clip, spelled out: its track key is there
  and is not the value \<open>-1\<close> that stands for a missing one, its start is there and not
  negative, its end is there and after the start, and the mute flag of its track is not
  set. Whether the index names a track of the project is not asked.
\<close>

definition passes_filters :: "track list \<Rightarrow> clip \<Rightarrow> bool" where
  "passes_filters ts c =
     (case (c_track c, c_start c, c_end c) of
        (Some t, Some s, Some e) \<Rightarrow>
          t \<noteq> - 1 \<and> 0 \<le> num_val s \<and> num_val s < num_val e \<and> \<not> muted_flag ts t
      | _ \<Rightarrow> False)"

text \<open>
  The condition of the specification for a clip to be exported, in its words: the mute
  flag of the owning track is false or absent, the start is not negative, the end is after
  the start, and the track reference resolves, that is, it names a track of the project.
\<close>

definition included_by_spec :: "track list \<Rightarrow> clip \<Rightarrow> bool" where
  "included_by_spec ts c =
     (case (c_track c, c_start c, c_end c) of
        (Some t, Some s, Some e) \<Rightarrow>
          0 \<le> t \<and> nat t < length ts \<and> 0 \<le> num_val s \<and> num_val s < num_val e
          \<and> \<not> muted_flag ts t
      | _ \<Rightarrow> False)"


text \<open>
  A list of sent commands in which every \<open>Delete:\<close> comes right after the selection of
  the scratch track and of the time range from 0 to 100, and every \<open>Paste:\<close> comes three
  commands after a \<open>Delete:\<close>.
\<close>

definition scratch_cleared :: "(real \<Rightarrow> string) \<Rightarrow> int \<Rightarrow> string list \<Rightarrow> bool" where
  "scratch_cleared fr temp xs =
     (\<forall>i < length xs.
        (xs ! i = delete \<longrightarrow>
           2 \<le> i \<and> xs ! (i - 1) = select_time fr (PyInt 0) (PyInt 100) ''ProjectStart''
           \<and> xs ! (i - 2) = select_tracks temp 1 ''Set'')
        \<and> (xs ! i = paste \<longrightarrow> 3 \<le> i \<and> xs ! (i - 3) = delete))"

text \<open>
  A project with a muted guide track and a vocal track: two clips to export (one of them
  130 seconds long), one clip on the muted track, and one clip of no length.
\<close>

definition studio :: world where
  "studio =
     \<lparr>app = \<lparr>tracks = [\<lparr>t_name = Some ''Guide'', t_mute = Some 1\<rparr>,
                       \<lparr>t_name = Some ''Vocals'', t_mute = Some 0\<rparr>],
             clips = [\<lparr>c_name = Some ''My:Clip*'', c_track = Some 1,
                        c_start = Some (PyInt 1), c_end = Some (PyInt 3)\<rparr>,
                      \<lparr>c_name = Some ''Click'', c_track = Some 0,
                        c_start = Some (PyInt 0), c_end = Some (PyInt 200)\<rparr>,
                      \<lparr>c_name = Some ''Chorus'', c_track = Some 1,
                        c_start = Some (PyInt 120), c_end = Some (PyInt 250)\<rparr>,
                      \<lparr>c_name = Some ''Empty'', c_track = Some 1,
                        c_start = Some (PyInt 5), c_end = Some (PyInt 5)\<rparr>],
             selected = [], files = []\<rparr>,
      pipes_exist = True, script = [], sent = [], printed = []\<rparr>"


text \<open>The number of \<open>Export2:\<close> commands in a list of sent texts.\<close>

definition exports_sent :: "string list \<Rightarrow> nat" where
  "exports_sent xs = length (filter (prefix ''Export2:'') xs)"



section \<open>Verification\<close>

subsection \<open>Stripping and replacing\<close>

lemma py_strip_Nil [simp]: "py_strip [] = []"
  by (simp add: py_strip_def strip_by_def)

lemma strip_by_sublist: "sublist (strip_by P s) s"
proof -
  have "prefix (rev (dropWhile P (rev (dropWhile P s)))) (dropWhile P s)"
    by (metis prefixI rev_append rev_rev_ident takeWhile_dropWhile_id)
  moreover have "suffix (dropWhile P s) s"
    by (metis suffixI takeWhile_dropWhile_id)
  ultimately show ?thesis
    unfolding strip_by_def sublist_altdef' by blast
qed

lemma dropWhile_self: "xs = [] \<or> \<not> P (hd xs) \<Longrightarrow> dropWhile P xs = xs"
  by (cases xs) auto

lemma strip_by_idem: "strip_by P (strip_by P s) = strip_by P s"
proof -
  define y where "y = dropWhile P s"
  define z where "z = dropWhile P (rev y)"
  have x: "strip_by P s = rev z" by (simp add: strip_by_def y_def z_def)
  have z: "z = [] \<or> \<not> P (hd z)" unfolding z_def by (metis hd_dropWhile)
  have y: "y = [] \<or> \<not> P (hd y)" unfolding y_def by (metis hd_dropWhile)
  have zy: "suffix z (rev y)" unfolding z_def by (metis suffixI takeWhile_dropWhile_id)
  have "rev z = [] \<or> \<not> P (hd (rev z))"
  proof (cases "z = []")
    case True then show ?thesis by simp
  next
    case False
    from zy obtain u where u: "rev y = u @ z" by (auto simp: suffix_def)
    then have "rev (rev y) = rev (u @ z)" by (rule arg_cong)
    then have yz: "y = rev z @ rev u" by simp
    from False have nz: "rev z \<noteq> []" by simp
    have "hd y = hd (rev z)" unfolding yz using nz by (rule hd_append2)
    moreover have "y \<noteq> []" unfolding yz using nz by simp
    ultimately show ?thesis using y by simp
  qed
  then have "dropWhile P (rev z) = rev z" by (rule dropWhile_self)
  moreover have "dropWhile P z = z" using z by (rule dropWhile_self)
  ultimately show ?thesis unfolding x by (simp add: strip_by_def)
qed

lemma prefix_hd: "prefix us ys \<Longrightarrow> us \<noteq> [] \<Longrightarrow> hd us = hd ys"
  by (cases us; cases ys) simp_all

lemma no_border:
  assumes "hd old \<notin> set (tl old)" "t \<noteq> []" "prefix old (t @ old @ z)"
  shows "prefix old t"
proof -
  from assms(3) have "prefix old t \<or> (\<exists>us. old = t @ us \<and> prefix us (old @ z))"
    by (rule prefix_append [THEN iffD1])
  then consider "prefix old t" | us where "old = t @ us" "prefix us (old @ z)"
    by blast
  then show ?thesis
  proof cases
    case 1 then show ?thesis .
  next
    case 2
    show ?thesis
    proof (cases "us = []")
      case True with 2 show ?thesis by simp
    next
      case False
      from assms(2) 2(1) have old: "old \<noteq> []" by simp
      from prefix_hd [OF 2(2) False] old have "hd us = hd old" by simp
      moreover have "tl old = tl t @ us" unfolding 2(1) using assms(2) by simp
      then have "hd us \<in> set (tl old)" using False by simp
      ultimately show ?thesis using assms(1) by simp
    qed
  qed
qed

lemma py_replace_absent:
  "old \<noteq> [] \<Longrightarrow> \<not> sublist old s \<Longrightarrow> py_replace old new s = s"
proof (induction s)
  case Nil
  then show ?case by (simp add: py_replace.simps)
next
  case (Cons c cs)
  from Cons.prems have "\<not> prefix old (c # cs)" "\<not> sublist old cs"
    by (auto simp: sublist_Cons_right)
  with Cons show ?case
    by (subst py_replace.simps) simp
qed

lemma py_replace_once:
  assumes "old \<noteq> []" "hd old \<notin> set (tl old)" "\<not> sublist old b1"
  shows "py_replace old new (b1 @ old @ b2) = b1 @ new @ py_replace old new b2"
  using assms(3)
proof (induction b1)
  case Nil
  show ?case using assms(1) by (subst py_replace.simps) simp
next
  case (Cons c cs)
  have "\<not> prefix old ((c # cs) @ old @ b2)"
  proof
    assume "prefix old ((c # cs) @ old @ b2)"
    from no_border [OF assms(2) _ this] have "prefix old (c # cs)" by simp
    with Cons.prems show False by (auto simp: sublist_Cons_right)
  qed
  moreover from Cons.prems have "\<not> sublist old cs" by (auto simp: sublist_Cons_right)
  ultimately show ?case
    using assms(1) Cons.IH by (subst py_replace.simps) simp
qed


lemma py_join_Nil_sep: "py_join [] bs = concat bs"
  by (induction bs rule: induct_list012) simp_all

lemma py_replace_join:
  assumes "old \<noteq> []" "hd old \<notin> set (tl old)"
  shows "bs \<noteq> [] \<Longrightarrow> \<forall>b \<in> set bs. \<not> sublist old b \<Longrightarrow>
         py_replace old new (py_join old bs) = py_join new bs"
proof (induction bs rule: induct_list012)
  case 1
  then show ?case by simp
next
  case (2 x)
  then show ?case using assms(1) by (simp add: py_replace_absent)
next
  case (3 x y ys)
  from "3.prems" have x: "\<not> sublist old x" and rest: "\<forall>b \<in> set (y # ys). \<not> sublist old b"
    by simp_all
  have "py_replace old new (x @ old @ py_join old (y # ys))
          = x @ new @ py_replace old new (py_join old (y # ys))"
    by (rule py_replace_once [OF assms x])
  with "3.IH"(2) rest show ?case by simp
qed

lemma first_occurrence:
  assumes "sublist old s"
  shows "\<exists>ps ss. s = ps @ old @ ss \<and> (\<forall>ps' ss'. s = ps' @ old @ ss' \<longrightarrow> length ps \<le> length ps')"
proof -
  define n where "n = (LEAST n. \<exists>ps ss. s = ps @ old @ ss \<and> length ps = n)"
  from assms have ex: "\<exists>n. \<exists>ps ss. s = ps @ old @ ss \<and> length ps = n"
    by (auto simp: sublist_def)
  from LeastI_ex [OF ex] obtain ps ss where p: "s = ps @ old @ ss" "length ps = n"
    unfolding n_def by blast
  have "length ps \<le> length ps'" if "s = ps' @ old @ ss'" for ps' ss'
    unfolding p(2) n_def by (rule Least_le) (use that in blast)
  with p(1) show ?thesis by blast
qed

lemma split_at_sentinel:
  assumes "old \<noteq> []"
  shows "\<exists>bs. bs \<noteq> [] \<and> (\<forall>b \<in> set bs. \<not> sublist old b) \<and> s = py_join old bs"
proof (induction "length s" arbitrary: s rule: less_induct)
  case less
  show ?case
  proof (cases "sublist old s")
    case False
    then have "[s] \<noteq> [] \<and> (\<forall>b \<in> set [s]. \<not> sublist old b) \<and> s = py_join old [s]"
      by simp
    then show ?thesis by blast
  next
    case True
    from first_occurrence [OF True] obtain ps ss where
      p: "s = ps @ old @ ss" "\<And>ps' ss'. s = ps' @ old @ ss' \<Longrightarrow> length ps \<le> length ps'"
      by blast
    have free: "\<not> sublist old ps"
    proof
      assume "sublist old ps"
      then obtain a b where "ps = a @ old @ b" by (auto simp: sublist_def)
      then have "s = a @ old @ (b @ old @ ss)" "length a < length ps"
        using p(1) assms by simp_all
      with p(2) [of a "b @ old @ ss"] show False by simp
    qed
    have "length ss < length s" using p(1) assms by simp
    from less [OF this] obtain bs where
      bs: "bs \<noteq> []" "\<forall>b \<in> set bs. \<not> sublist old b" "ss = py_join old bs"
      by blast
    from bs(1) obtain y ys where y: "bs = y # ys" by (cases bs) auto
    have "ps # bs \<noteq> [] \<and> (\<forall>b \<in> set (ps # bs). \<not> sublist old b) \<and> s = py_join old (ps # bs)"
      using free bs p(1) by (simp add: y)
    then show ?thesis by blast
  qed
qed

subsection \<open>The receive loop\<close>

lemma content_Nil [simp]: "content [] = []"
  by (simp add: content_def)

lemma content_Cons:
  "content ((l, n) # reads) = (if py_strip l = [] then content reads else l @ content reads)"
  by (simp add: content_def)

lemma content_append [simp]: "content (xs @ ys) = content xs @ content ys"
  by (simp add: content_def)

text \<open>While the loop is still reading, it has accumulated the content of what it read.\<close>

lemma receive_loop_None_append:
  "receive_loop T s pre acc = None \<Longrightarrow>
   receive_loop T s (pre @ rest) acc = receive_loop T s rest (acc @ content pre)"
proof (induction pre arbitrary: acc)
  case Nil
  then show ?case by simp
next
  case (Cons a pre)
  obtain l n where a: "a = (l, n)" by (cases a)
  from Cons.prems show ?case
    unfolding a by (auto simp: content_Cons Cons.IH split: if_splits)
qed

lemma receive_loop_returns:
  "receive_loop T s reads acc = Some (Inr r) \<Longrightarrow>
   \<exists>pre l n post. reads = pre @ (l, n) # post \<and> receive_loop T s pre acc = None
      \<and> is_blank l \<and> r = acc @ content pre \<and> r \<noteq> []"
proof (induction reads arbitrary: acc)
  case Nil
  then show ?case by simp
next
  case (Cons a reads)
  obtain l n where a: "a = (l, n)" by (cases a)
  show ?case
  proof (cases "l \<noteq> [] \<and> py_strip l = [] \<and> acc \<noteq> []")
    case True
    with Cons.prems have "r = acc" unfolding a by simp
    with True have "a # reads = [] @ (l, n) # reads \<and> receive_loop T s [] acc = None
      \<and> is_blank l \<and> r = acc @ content [] \<and> r \<noteq> []"
      by (simp add: a is_blank_def)
    then show ?thesis by blast
  next
    case False
    define acc' where "acc' = (if py_strip l = [] then acc else acc @ l)"
    from False Cons.prems have rec: "receive_loop T s reads acc' = Some (Inr r)"
      and one: "receive_loop T s [(l, n)] acc = None"
      unfolding a acc'_def by (auto split: if_splits)
    from Cons.IH [OF rec] obtain pre l' n' post where
      p: "reads = pre @ (l', n') # post" "receive_loop T s pre acc' = None"
         "is_blank l'" "r = acc' @ content pre" "r \<noteq> []"
      by blast
    have acc': "acc' = acc @ content [(l, n)]"
      by (simp add: acc'_def content_Cons)
    have "receive_loop T s ([(l, n)] @ pre) acc = None"
      using receive_loop_None_append [OF one, of pre] p(2) acc' by simp
    moreover have "r = acc @ content ((l, n) # pre)"
      using p(4) acc' by (simp add: content_Cons)
    ultimately have "a # reads = ((l, n) # pre) @ (l', n') # post
       \<and> receive_loop T s ((l, n) # pre) acc = None \<and> is_blank l'
       \<and> r = acc @ content ((l, n) # pre) \<and> r \<noteq> []"
      using p a by simp
    then show ?thesis by blast
  qed
qed

lemma receive_loop_raises:
  "receive_loop T s reads acc = Some (Inl e) \<Longrightarrow>
   \<exists>pre n post. reads = pre @ ([], n) # post \<and> receive_loop T s pre acc = None
      \<and> n - s > T \<and> e = AudacityError ''Timeout waiting for response''"
proof (induction reads arbitrary: acc)
  case Nil
  then show ?case by simp
next
  case (Cons a reads)
  obtain l n where a: "a = (l, n)" by (cases a)
  show ?case
  proof (cases "l = [] \<and> n - s > T")
    case True
    with Cons.prems have "e = AudacityError ''Timeout waiting for response''"
      unfolding a by simp
    with True have "a # reads = [] @ ([], n) # reads \<and> receive_loop T s [] acc = None
      \<and> n - s > T \<and> e = AudacityError ''Timeout waiting for response''"
      by (simp add: a)
    then show ?thesis by blast
  next
    case False
    define acc' where "acc' = (if py_strip l = [] then acc else acc @ l)"
    from False Cons.prems have rec: "receive_loop T s reads acc' = Some (Inl e)"
      and one: "receive_loop T s [(l, n)] acc = None"
      unfolding a acc'_def by (auto split: if_splits)
    from Cons.IH [OF rec] obtain pre n' post where
      p: "reads = pre @ ([], n') # post" "receive_loop T s pre acc' = None"
         "n' - s > T" "e = AudacityError ''Timeout waiting for response''"
      by blast
    have acc': "acc' = acc @ content [(l, n)]"
      by (simp add: acc'_def content_Cons)
    have "receive_loop T s ([(l, n)] @ pre) acc = None"
      using receive_loop_None_append [OF one, of pre] p(2) acc' by simp
    then have "a # reads = ((l, n) # pre) @ ([], n') # post
       \<and> receive_loop T s ((l, n) # pre) acc = None
       \<and> n' - s > T \<and> e = AudacityError ''Timeout waiting for response''"
      using p a by simp
    then show ?thesis by blast
  qed
qed

lemma receive_loop_None_iff:
  "receive_loop T s pre acc = None \<longleftrightarrow>
     (\<forall>(l, n) \<in> set pre. l = [] \<longrightarrow> n - s \<le> T) \<and>
     (\<forall>i < length pre. is_blank (fst (pre ! i)) \<longrightarrow> acc @ content (take i pre) = [])"
proof (induction pre arbitrary: acc)
  case Nil
  then show ?case by simp
next
  case (Cons a pre)
  obtain l n where a: "a = (l, n)" by (cases a)
  show ?case
    unfolding a
    by (auto simp: Cons.IH content_Cons is_blank_def not_less All_less_Suc2)
qed

text \<open>
  The loop returns a response exactly when it reads a blank line while
  it is still reading and has accumulated content; the response is that content, so blank
  lines before any content are passed over. It raises the timeout error exactly when,
  still reading, it gets "no data" at a moment later than \<open>timeout\<close> after the start:
  the clock is looked at on no other read. It is still reading after a list of reads
  exactly when no "no data" read in it came after the deadline and no blank line in it
  came after content.
\<close>

theorem receive_loop_framing:
  "(receive_loop T s reads [] = Some (Inr r) \<longleftrightarrow>
      (\<exists>pre l n post. reads = pre @ (l, n) # post \<and> receive_loop T s pre [] = None
          \<and> is_blank l \<and> content pre \<noteq> [] \<and> r = content pre))
   \<and> (receive_loop T s reads [] = Some (Inl e) \<longleftrightarrow>
      (\<exists>pre n post. reads = pre @ ([], n) # post \<and> receive_loop T s pre [] = None
          \<and> T < n - s \<and> e = AudacityError ''Timeout waiting for response''))
   \<and> (receive_loop T s reads [] = None \<longleftrightarrow>
        (\<forall>(l, n) \<in> set reads. l = [] \<longrightarrow> n - s \<le> T) \<and>
        (\<forall>i < length reads. is_blank (fst (reads ! i)) \<longrightarrow> content (take i reads) = []))"
proof (intro conjI iffI)
  assume "receive_loop T s reads [] = Some (Inr r)"
  from receive_loop_returns [OF this]
  show "\<exists>pre l n post. reads = pre @ (l, n) # post \<and> receive_loop T s pre [] = None
          \<and> is_blank l \<and> content pre \<noteq> [] \<and> r = content pre"
    by auto
next
  assume "\<exists>pre l n post. reads = pre @ (l, n) # post \<and> receive_loop T s pre [] = None
          \<and> is_blank l \<and> content pre \<noteq> [] \<and> r = content pre"
  then obtain pre l n post where p: "reads = pre @ (l, n) # post"
    "receive_loop T s pre [] = None" "is_blank l" "content pre \<noteq> []" "r = content pre"
    by blast
  show "receive_loop T s reads [] = Some (Inr r)"
    unfolding p(1) receive_loop_None_append [OF p(2)]
    using p(3,4,5) by (simp add: is_blank_def)
next
  assume "receive_loop T s reads [] = Some (Inl e)"
  from receive_loop_raises [OF this]
  show "\<exists>pre n post. reads = pre @ ([], n) # post \<and> receive_loop T s pre [] = None
          \<and> T < n - s \<and> e = AudacityError ''Timeout waiting for response''"
    by auto
next
  assume "\<exists>pre n post. reads = pre @ ([], n) # post \<and> receive_loop T s pre [] = None
          \<and> T < n - s \<and> e = AudacityError ''Timeout waiting for response''"
  then obtain pre n post where p: "reads = pre @ ([], n) # post"
    "receive_loop T s pre [] = None" "T < n - s"
    "e = AudacityError ''Timeout waiting for response''"
    by blast
  show "receive_loop T s reads [] = Some (Inl e)"
    unfolding p(1) receive_loop_None_append [OF p(2)]
    using p(3,4) by simp
qed (simp_all add: receive_loop_None_iff [of T s reads "[]", simplified])

text \<open>
  A run of the loop with a timeout of 10 seconds: a blank line first, a line of content,
  a read without data three seconds in, then the blank line that ends the response.
\<close>

theorem receive_loop_framing_witness:
  "receive_loop 10 0 [(''\<newline>'', 1), (''a\<newline>'', 2), ([], 3), (''  \<newline>'', 4)] []
      = Some (Inr ''a\<newline>'')
   \<and> (\<exists>pre l n post.
        [(''\<newline>'', 1), (''a\<newline>'', 2), ([], 3), (''  \<newline>'', 4)] = pre @ (l, n) # post
        \<and> receive_loop 10 0 pre [] = None \<and> is_blank l \<and> content pre = ''a\<newline>'')"
proof -
  have e: "receive_loop 10 0 [(''\<newline>'', 1), (''a\<newline>'', 2), ([], 3), (''  \<newline>'', 4)] []
      = Some (Inr ''a\<newline>'')"
    by (simp add: py_strip_def strip_by_def py_isspace_def)
  from receive_loop_framing
    [of 10 0 "[(''\<newline>'', 1), (''a\<newline>'', 2), ([], 3), (''  \<newline>'', 4)]" "''a\<newline>''",
      THEN conjunct1, THEN iffD1, OF e]
  show ?thesis using e by metis
qed

text \<open>
  C1. A response is claimed to be refused with a timeout error when no terminating blank
  line is observed within the configured timeout, which the docstring of the class calls
  the maximum time to wait for pipe operations. The loop reads the clock only when a read
  comes back without data: with a timeout of 10 seconds, a response whose terminating
  blank line arrives 40 seconds after the start is returned, because no read came back
  without data in between.
\<close>

theorem receive_response_late_terminator:
  "receive_response True True 10 0 [(''a\<newline>'', 1), (''\<newline>'', 40)] = Some (Inr ''a'')"
  by (simp add: receive_response_def clean_response_def py_replace.simps status_sentinel_def
      py_strip_def strip_by_def py_isspace_def)

subsection \<open>Cleaning the response\<close>

lemma sentinel_no_border:
  "status_sentinel \<noteq> [] \<and> hd status_sentinel \<notin> set (tl status_sentinel)"
  by (simp add: status_sentinel_def)

text \<open>
  C6 (as amended). The response is stripped of surrounding whitespace, every occurrence
  of the status sentinel is removed, wherever it stands and however many there are, and
  the result is stripped again: whenever the stripped response is a list of pieces free
  of the sentinel with the sentinel between each two of them, what is returned is the
  pieces put together and stripped; and every stripped response is such a list of pieces.
  (One piece: a response without the sentinel is returned stripped. Two pieces, the second
  empty: a response that ends with its only sentinel loses it.)
\<close>

theorem clean_response_removes_every_sentinel:
  "(bs \<noteq> [] \<and> (\<forall>b \<in> set bs. \<not> sublist status_sentinel b)
      \<and> py_strip response = py_join status_sentinel bs
      \<longrightarrow> clean_response response = py_strip (concat bs))
   \<and> (\<exists>pieces. pieces \<noteq> [] \<and> (\<forall>b \<in> set pieces. \<not> sublist status_sentinel b)
         \<and> py_strip response = py_join status_sentinel pieces)"
proof (intro conjI impI)
  assume a: "bs \<noteq> [] \<and> (\<forall>b \<in> set bs. \<not> sublist status_sentinel b)
      \<and> py_strip response = py_join status_sentinel bs"
  from sentinel_no_border a
  have "py_replace status_sentinel [] (py_join status_sentinel bs) = py_join [] bs"
    by (intro py_replace_join) simp_all
  with a show "clean_response response = py_strip (concat bs)"
    by (simp add: clean_response_def py_join_Nil_sep)
next
  from sentinel_no_border
  show "\<exists>pieces. pieces \<noteq> [] \<and> (\<forall>b \<in> set pieces. \<not> sublist status_sentinel b)
         \<and> py_strip response = py_join status_sentinel pieces"
    by (intro split_at_sentinel) simp
qed

theorem clean_response_removes_every_sentinel_witness:
  "py_strip ''x BatchCommand finished: OK y\<newline>BatchCommand finished: OK\<newline>''
      = py_join status_sentinel [''x '', '' y\<newline>'', []]
   \<and> \<not> sublist status_sentinel ''x '' \<and> \<not> sublist status_sentinel '' y\<newline>''
   \<and> \<not> sublist status_sentinel []
   \<and> clean_response ''x BatchCommand finished: OK y\<newline>BatchCommand finished: OK\<newline>''
        = ''x  y''"
proof -
  have 1: "py_strip ''x BatchCommand finished: OK y\<newline>BatchCommand finished: OK\<newline>''
      = py_join status_sentinel [''x '', '' y\<newline>'', []]"
    by (simp add: py_strip_def strip_by_def py_isspace_def status_sentinel_def)
  have 2: "\<not> sublist status_sentinel ''x ''" "\<not> sublist status_sentinel '' y\<newline>''"
    "\<not> sublist status_sentinel []"
    by (simp_all add: status_sentinel_def sublist_Cons_right)
  have 3: "py_strip (concat [''x '', '' y\<newline>'', []]) = ''x  y''"
    by (simp add: py_strip_def strip_by_def py_isspace_def)
  from 2 have all: "\<forall>b \<in> set [''x '', '' y\<newline>'', []]. \<not> sublist status_sentinel b"
    by simp
  from clean_response_removes_every_sentinel
    [of "[''x '', '' y\<newline>'', []]"
        "''x BatchCommand finished: OK y\<newline>BatchCommand finished: OK\<newline>''",
      THEN conjunct1] 1 all
  have "clean_response ''x BatchCommand finished: OK y\<newline>BatchCommand finished: OK\<newline>''
          = py_strip (concat [''x '', '' y\<newline>'', []])"
    by blast
  with 1 2 3 show ?thesis by simp
qed

text \<open>
  C6 (as stated) fails: the response below ends with the sentinel, and the text before
  that trailing sentinel is \<open>x BatchCommand finished: OK y\<close>; what is returned is
  \<open>x  y\<close>, the inner occurrence having been removed too.
\<close>

lemma clean_response_inner_value:
  "clean_response (''x BatchCommand finished: OK y'' @ status_sentinel) = ''x  y''"
  by code_simp

theorem clean_response_inner_sentinel:
  "clean_response (''x BatchCommand finished: OK y'' @ status_sentinel)
     \<noteq> ''x BatchCommand finished: OK y''"
  by (simp only: clean_response_inner_value) simp

subsection \<open>The text of the commands\<close>

text \<open>
  The methods that write a flag as \<open>{1 if flag else 0}\<close> send \<open>1\<close> or \<open>0\<close>.
\<close>

lemma one_if_01: "one_if b = (if b then ''1'' else ''0'')"
  by (simp add: one_if_def py_str_int_def str_of_nat.simps digit_char_def)

lemma set_track_audio_mute:
  "set_track_audio fr (Some b) None None None
     = ''SetTrackAudio: Mute='' @ (if b then ''1'' else ''0'')"
  by (simp add: set_track_audio_def with_params_def opt_param_def one_if_01)

lemma set_preference_reload:
  "set_preference n v b = ''SetPreference: Name='' @ [CHR 0x27] @ n @ [CHR 0x27]
     @ '' Value='' @ [CHR 0x27] @ v @ [CHR 0x27] @ '' Reload='' @ (if b then ''1'' else ''0'')"
  by (simp add: set_preference_def one_if_01)

text \<open>
  C7. Every boolean parameter is claimed to be sent as \<open>0\<close> or \<open>1\<close>. The methods
  \<open>open_project\<close>, \<open>save_project\<close> and \<open>normalize\<close> put the flag itself into the
  f-string, which prints Python's \<open>True\<close> or \<open>False\<close>: opening a project without adding
  it to the history sends \<open>AddToHistory=False\<close>.
\<close>

theorem open_project_sends_False:
  "open_project ''song.aup3'' False = ''OpenProject2: Filename='song.aup3' AddToHistory=False''"
  by (simp add: open_project_def py_str_bool_def)

text \<open>
  C9 (as amended). The text of \<open>get_info\<close> is the verb and the \<open>Type\<close> parameter,
  whatever \<open>format_type\<close> is: for two formats the texts are the same, and the text holds
  \<open>Format=\<close> exactly when \<open>info_type\<close> itself does.
\<close>

theorem get_info_ignores_format:
  "get_info info_type format1 = get_info info_type format2
   \<and> get_info info_type format1 = ''GetInfo: Type='' @ info_type
   \<and> (sublist ''Format='' (get_info info_type format1) \<longleftrightarrow> sublist ''Format='' info_type)"
  by (simp add: get_info_def sublist_Cons_right)

theorem get_info_ignores_format_witness:
  "\<not> sublist ''Format='' ''Tracks''
   \<and> get_info ''Tracks'' ''JSON'' = get_info ''Tracks'' ''LISP''
   \<and> get_info ''Tracks'' ''LISP'' = ''GetInfo: Type=Tracks''
   \<and> \<not> sublist ''Format='' (get_info ''Tracks'' ''LISP'')"
proof -
  have h: "\<not> sublist ''Format='' ''Tracks''"
    by (simp add: sublist_Cons_right)
  note t = get_info_ignores_format [of "''Tracks''" "''JSON''" "''LISP''"]
  from t have 1: "get_info ''Tracks'' ''JSON'' = get_info ''Tracks'' ''LISP''"
    by (rule conjunct1)
  from t [THEN conjunct2, THEN conjunct1]
  have 2: "get_info ''Tracks'' ''JSON'' = ''GetInfo: Type=Tracks''"
    by simp
  from t h have 3: "\<not> sublist ''Format='' (get_info ''Tracks'' ''JSON'')"
    by blast
  from h 1 2 3 show ?thesis by metis
qed

text \<open>
  C9 (as stated) fails: the text is claimed never to contain a \<open>Format\<close> parameter, but
  \<open>info_type\<close> is put into it as it is, so an \<open>info_type\<close> that holds one sends one.
\<close>

theorem get_info_passes_format_in_type:
  "sublist ''Format='' (get_info ''Tracks Format=LISP'' ''JSON'')"
  by (simp add: get_info_def sublist_Cons_right)

subsection \<open>Choosing a free file name\<close>

lemma resolve_collision_first_free:
  assumes "\<forall>k. c \<le> k \<and> k < n \<longrightarrow> os_path_exists fs (candidate d p s e k)"
    and "\<not> os_path_exists fs (candidate d p s e n)" and "c \<le> n"
  shows "resolve_collision fs d p s e (candidate d p s e c) (c + 1) = Some (candidate d p s e n)"
  using assms
proof (induction "n - c" arbitrary: c)
  case 0
  then have "c = n" by simp
  with "0.prems"(2) show ?case
    by (subst resolve_collision.simps) simp
next
  case (Suc m)
  then have ex: "os_path_exists fs (candidate d p s e c)" and lt: "c < n" by auto
  have "resolve_collision fs d p s e (candidate d p s e (c + 1)) (c + 1 + 1)
          = Some (candidate d p s e n)"
    using Suc.hyps(1) [of "c + 1"] Suc.hyps(2) Suc.prems lt by auto
  with ex show ?case
    by (subst resolve_collision.simps) simp
qed

lemma digit_char_inj: "a < 10 \<Longrightarrow> b < 10 \<Longrightarrow> digit_char a = digit_char b \<Longrightarrow> a = b"
proof -
  have d: "distinct ''0123456789''" by simp
  assume "a < 10" "b < 10" "digit_char a = digit_char b"
  then show "a = b"
    unfolding digit_char_def using nth_eq_iff_index_eq [OF d, of a b] by simp
qed

lemma str_of_nat_length: "0 < length (str_of_nat n)"
  by (subst str_of_nat.simps) simp

lemma str_of_nat_inj: "str_of_nat m = str_of_nat n \<Longrightarrow> m = n"
proof (induction m arbitrary: n rule: str_of_nat.induct)
  case (1 m)
  show ?case
  proof (cases "m < 10")
    case True
    have m: "str_of_nat m = [digit_char m]" using True by (subst str_of_nat.simps) simp
    show ?thesis
    proof (cases "n < 10")
      case n: True
      then have "str_of_nat n = [digit_char n]" by (subst str_of_nat.simps) simp
      with m "1.prems" True n show ?thesis by (auto dest: digit_char_inj)
    next
      case n: False
      then have "str_of_nat n = str_of_nat (n div 10) @ [digit_char (n mod 10)]"
        by (subst str_of_nat.simps) simp
      with m "1.prems" str_of_nat_length [of "n div 10"] show ?thesis by (cases "str_of_nat (n div 10)") auto
    qed
  next
    case False
    have m: "str_of_nat m = str_of_nat (m div 10) @ [digit_char (m mod 10)]"
      using False by (subst str_of_nat.simps) simp
    show ?thesis
    proof (cases "n < 10")
      case n: True
      then have "str_of_nat n = [digit_char n]" by (subst str_of_nat.simps) simp
      with m "1.prems" str_of_nat_length [of "m div 10"] show ?thesis by (cases "str_of_nat (m div 10)") auto
    next
      case n: False
      then have "str_of_nat n = str_of_nat (n div 10) @ [digit_char (n mod 10)]"
        by (subst str_of_nat.simps) simp
      with m "1.prems" have a: "str_of_nat (m div 10) = str_of_nat (n div 10)"
        and b: "digit_char (m mod 10) = digit_char (n mod 10)" by auto
      from "1.IH" [OF False a] have "m div 10 = n div 10" .
      moreover have "m mod 10 = n mod 10"
        by (rule digit_char_inj [OF _ _ b]) simp_all
      ultimately show ?thesis by (metis div_mult_mod_eq)
    qed
  qed
qed

lemma numbered_filename_head:
  "\<exists>c cs. \<forall>k. numbered_filename p s k e = c # cs k"
proof (cases "p @ s")
  case Nil
  then have "\<forall>k. numbered_filename p s k e = CHR ''_'' # (py_str_int (int k) @ ''.'' @ e)"
    by (simp add: numbered_filename_def)
  then show ?thesis by (intro exI [of _ "CHR ''_''"] exI [of _ "\<lambda>k. py_str_int (int k) @ ''.'' @ e"])
next
  case (Cons c cs)
  then have "\<forall>k. numbered_filename p s k e = c # (cs @ ''_'' @ py_str_int (int k) @ ''.'' @ e)"
    by (cases p) (auto simp: numbered_filename_def)
  then show ?thesis by (intro exI [of _ c] exI [of _ "\<lambda>k. cs @ ''_'' @ py_str_int (int k) @ ''.'' @ e"])
qed

lemma numbered_filename_inj:
  "numbered_filename p s j e = numbered_filename p s k e \<Longrightarrow> j = k"
  by (auto simp: numbered_filename_def py_str_int_def dest: str_of_nat_inj split: if_splits)

lemma candidate_inj: "candidate d p s e j = candidate d p s e k \<Longrightarrow> j = k"
proof -
  assume eq: "candidate d p s e j = candidate d p s e k"
  obtain c cs where h: "\<And>k. numbered_filename p s k e = c # cs k"
    using numbered_filename_head [of p s e] by blast
  from eq have "numbered_filename p s j e = numbered_filename p s k e"
    by (auto simp: os_path_join_def h split: if_splits)
  then show ?thesis by (rule numbered_filename_inj)
qed

lemma free_candidate: "\<exists>n\<ge>c. \<not> os_path_exists fs (candidate d p s e n)"
proof (rule ccontr)
  assume "\<not> ?thesis"
  then have "candidate d p s e ` {c..} \<subseteq> set fs"
    by (auto simp: os_path_exists_def)
  then have "finite (candidate d p s e ` {c..})" by (rule finite_subset) simp
  moreover have "inj_on (candidate d p s e) {c..}"
    by (rule inj_onI) (rule candidate_inj)
  ultimately have "finite {c..}" by (rule finite_imageD)
  then show False by (simp add: infinite_Ici)
qed

lemma resolve_collision_total:
  "\<exists>r. resolve_collision fs d p s e path c = Some r"
proof (cases "os_path_exists fs path")
  case False
  then show ?thesis by (subst resolve_collision.simps) simp
next
  case True
  define n where "n = (LEAST n. c \<le> n \<and> \<not> os_path_exists fs (candidate d p s e n))"
  have ex: "\<exists>n. c \<le> n \<and> \<not> os_path_exists fs (candidate d p s e n)"
    using free_candidate [of c fs d p s e] by blast
  have n: "c \<le> n \<and> \<not> os_path_exists fs (candidate d p s e n)"
    unfolding n_def by (rule LeastI_ex [OF ex])
  have least: "\<forall>k. c \<le> k \<and> k < n \<longrightarrow> os_path_exists fs (candidate d p s e k)"
    unfolding n_def using not_less_Least by blast
  from resolve_collision_first_free [OF least] n
  have "resolve_collision fs d p s e (candidate d p s e c) (c + 1) = Some (candidate d p s e n)"
    by simp
  with True show ?thesis by (subst resolve_collision.simps) simp
qed

text \<open>
  C5. When the computed path and the paths with the counters 1 to N - 1 exist and the
  path with the counter N does not, the path chosen is the one with the counter N: the
  loop tests every candidate in turn, from the computed path on, and stops at the first
  that does not exist.
\<close>

theorem unique_output_path_next_suffix:
  assumes "1 \<le> N"
    and "os_path_exists fs (os_path_join output_dir (output_filename pfx safe_name ext))"
    and "\<forall>k. 1 \<le> k \<and> k < N \<longrightarrow>
           os_path_exists fs (os_path_join output_dir (numbered_filename pfx safe_name k ext))"
    and "\<not> os_path_exists fs (os_path_join output_dir (numbered_filename pfx safe_name N ext))"
  shows "unique_output_path fs output_dir pfx safe_name ext
           = Some (os_path_join output_dir (numbered_filename pfx safe_name N ext))"
proof -
  from resolve_collision_first_free
    [where c = 1 and n = N and fs = fs and d = output_dir and p = pfx
       and s = safe_name and e = ext] assms
  have "resolve_collision fs output_dir pfx safe_name ext
          (candidate output_dir pfx safe_name ext 1) (1 + 1)
        = Some (candidate output_dir pfx safe_name ext N)"
    by simp
  with assms(2) show ?thesis
    unfolding unique_output_path_def
    by (subst resolve_collision.simps) simp
qed


theorem unique_output_path_next_suffix_witness:
  "os_path_exists [''out/a.wav'', ''out/a_1.wav''] (os_path_join ''out'' (output_filename [] ''a'' ''wav''))
   \<and> os_path_exists [''out/a.wav'', ''out/a_1.wav'']
         (os_path_join ''out'' (numbered_filename [] ''a'' 1 ''wav''))
   \<and> \<not> os_path_exists [''out/a.wav'', ''out/a_1.wav'']
         (os_path_join ''out'' (numbered_filename [] ''a'' 2 ''wav''))
   \<and> unique_output_path [''out/a.wav'', ''out/a_1.wav''] ''out'' [] ''a'' ''wav''
        = Some ''out/a_2.wav''"
proof -
  have n1: "numbered_filename [] ''a'' (Suc 0) ''wav'' = ''a_1.wav''"
    by (simp add: numbered_filename_def py_str_int_def str_of_nat.simps digit_char_def)
  have n2: "numbered_filename [] ''a'' 2 ''wav'' = ''a_2.wav''"
    by (simp add: numbered_filename_def py_str_int_def str_of_nat.simps digit_char_def)
  have 0: "os_path_exists [''out/a.wav'', ''out/a_1.wav'']
             (os_path_join ''out'' (output_filename [] ''a'' ''wav''))"
    by (simp add: os_path_exists_def os_path_join_def output_filename_def)
  have 1: "os_path_exists [''out/a.wav'', ''out/a_1.wav'']
             (os_path_join ''out'' (numbered_filename [] ''a'' 1 ''wav''))"
    by (simp add: n1 os_path_exists_def os_path_join_def)
  have 2: "\<not> os_path_exists [''out/a.wav'', ''out/a_1.wav'']
             (os_path_join ''out'' (numbered_filename [] ''a'' 2 ''wav''))"
    by (simp add: n2 os_path_exists_def os_path_join_def)
  have below: "\<forall>k. 1 \<le> k \<and> k < 2 \<longrightarrow> os_path_exists [''out/a.wav'', ''out/a_1.wav'']
                 (os_path_join ''out'' (numbered_filename [] ''a'' k ''wav''))"
  proof (intro allI impI)
    fix k :: nat
    assume "1 \<le> k \<and> k < 2"
    then have "k = 1" by simp
    with 1 show "os_path_exists [''out/a.wav'', ''out/a_1.wav'']
                   (os_path_join ''out'' (numbered_filename [] ''a'' k ''wav''))"
      by simp
  qed
  have "unique_output_path [''out/a.wav'', ''out/a_1.wav''] ''out'' [] ''a'' ''wav''
          = Some (os_path_join ''out'' (numbered_filename [] ''a'' 2 ''wav''))"
    by (rule unique_output_path_next_suffix [OF _ 0 below 2]) simp
  then have "unique_output_path [''out/a.wav'', ''out/a_1.wav''] ''out'' [] ''a'' ''wav''
          = Some ''out/a_2.wav''"
    by (simp add: n2 os_path_join_def)
  with 0 1 2 show ?thesis by simp
qed

subsection \<open>Stretches of calls\<close>

lemma advance_Nil [simp]: "advance fr [] w = w"
  by (simp add: advance_def)

lemma advance_fields [simp]:
  "script (advance fr reqs w) = drop (length reqs) (script w)"
  "sent (advance fr reqs w) = sent w @ map (wire fr) reqs"
  "app (advance fr reqs w) = fold host_exec reqs (app w)"
  "printed (advance fr reqs w) = printed w"
  "pipes_exist (advance fr reqs w) = pipes_exist w"
  by (simp_all add: advance_def)

lemma advance_Cons: "advance fr (req # reqs) w = advance fr reqs (delivered fr req w)"
  by (simp add: advance_def delivered_def drop_Suc tl_drop)

lemma advance_append: "advance fr (xs @ ys) w = advance fr ys (advance fr xs w)"
  by (simp add: advance_def add.commute)

lemma next_fault_Ok:
  "\<forall>f \<in> set (take (Suc n) (script w)). f = Ok \<Longrightarrow> next_fault w = Ok"
  by (cases "script w") (simp_all add: next_fault_def)

lemma do_command_ok:
  "next_fault w = Ok \<Longrightarrow>
   do_command fr req w = (Inr (host_reply req (app w)), delivered fr req w)"
  by (simp add: do_command_def)

lemma run_requests_ok:
  "\<forall>f \<in> set (take (length reqs) (script w)). f = Ok \<Longrightarrow>
   run_requests fr reqs w = (Inr (), advance fr reqs w)"
proof (induction reqs arbitrary: w)
  case Nil
  then show ?case by simp
next
  case (Cons req reqs)
  from Cons.prems have nf: "next_fault w = Ok"
    by (auto intro: next_fault_Ok)
  have "\<forall>f \<in> set (take (length reqs) (script (delivered fr req w))). f = Ok"
    using Cons.prems by (cases "script w") (auto simp: delivered_def)
  from Cons.IH [OF this] show ?case
    by (simp add: do_command_ok [OF nf] advance_Cons)
qed

lemma run_requests_append:
  "run_requests fr (xs @ ys) w =
     (case run_requests fr xs w of
        (Inl e, w') \<Rightarrow> (Inl e, w')
      | (Inr u, w') \<Rightarrow> run_requests fr ys w')"
  by (induction xs arbitrary: w) (auto split: prod.splits sum.splits)


lemma export_tracks_loop_plan:
  "export_tracks_loop fr d b e n items w =
     run_requests fr (concat (map (\<lambda>(i, track). track_requests d b e n i) items)) w"
proof (induction items arbitrary: w)
  case Nil
  then show ?case by simp
next
  case (Cons a items)
  obtain i t where a: "a = (i, t)" by (cases a)
  show ?case
    unfolding a
    by (simp add: run_requests_append Cons.IH split: prod.splits sum.splits)
qed

lemma export_tracks_individually_plan:
  assumes "pipes_exist w" "next_fault w = Ok" "tracks (app w) \<noteq> []"
  shows "export_tracks_individually fr d b e w =
     (case run_requests fr (track_plan d b e (tracks (app w))
                            @ set_mute_each False (length (tracks (app w))))
             (delivered fr (Get_info ''Tracks'') w) of
        (Inl err, w') \<Rightarrow> (Exit_1, w')
      | (Inr u, w') \<Rightarrow> (Finished, w'))"
  using assms
  by (simp add: export_tracks_individually_def do_command_ok json_tracks_def Let_def
      export_tracks_loop_plan track_plan_def run_requests_append
      split: prod.splits sum.splits)

subsection \<open>The track workflow\<close>

lemma set_mute_tracks:
  "length (tracks (set_mute b h)) = length (tracks h)"
  "i < length (tracks h) \<Longrightarrow>
     tracks (set_mute b h) ! i =
       (if i \<in> set (selected h) then (tracks h ! i)\<lparr>t_mute := Some (if b then 1 else 0)\<rparr>
        else tracks h ! i)"
  by (simp_all add: set_mute_def nth_enumerate_eq)

lemma host_exec_length:
  "New_stereo_track \<noteq> req \<Longrightarrow> length (tracks (host_exec req h)) = length (tracks h)"
  by (cases req) (simp_all add: set_mute_tracks split: option.splits)

lemma fold_host_exec_length:
  "New_stereo_track \<notin> set reqs \<Longrightarrow>
   length (tracks (fold host_exec reqs h)) = length (tracks h)"
  by (induction reqs arbitrary: h) (simp_all add: host_exec_length)

lemma select_one:
  "k < length (tracks h) \<Longrightarrow>
   set (selected (host_exec (Select_tracks (int k) 1 ''Set'') h)) = {k}"
  by auto

lemma set_mute_each_Suc:
  "set_mute_each b (Suc n) =
     set_mute_each b n @ [Select_tracks (int n) 1 ''Set'', Set_track_audio (Some b) None None None]"
  by (simp add: set_mute_each_def)

lemma mute_one:
  fixes b :: bool
  assumes "k < length (tracks h)"
    and "h' = fold host_exec
      [Select_tracks (int k) 1 ''Set'', Set_track_audio (Some b) None None None] h"
  shows "length (tracks h') = length (tracks h)"
    and "t_mute (tracks h' ! k) = Some (if b then 1 else 0)"
    and "\<And>i. i < length (tracks h) \<Longrightarrow> i \<noteq> k \<Longrightarrow> tracks h' ! i = tracks h ! i"
proof -
  define h1 where "h1 = host_exec (Select_tracks (int k) 1 ''Set'') h"
  have t1: "tracks h1 = tracks h" by (simp add: h1_def)
  have s1: "set (selected h1) = {k}" unfolding h1_def by (rule select_one [OF assms(1)])
  have h': "h' = set_mute b h1" by (simp add: assms(2) h1_def)
  show "length (tracks h') = length (tracks h)"
    by (simp add: h' set_mute_tracks t1)
  show "t_mute (tracks h' ! k) = Some (if b then 1 else 0)"
    using assms(1) by (simp add: h' set_mute_tracks t1 s1)
  show "\<And>i. i < length (tracks h) \<Longrightarrow> i \<noteq> k \<Longrightarrow> tracks h' ! i = tracks h ! i"
    by (simp add: h' set_mute_tracks t1 s1)
qed

lemma set_mute_each_result:
  "n \<le> length (tracks h) \<Longrightarrow>
   length (tracks (fold host_exec (set_mute_each b n) h)) = length (tracks h)
   \<and> (\<forall>i < n. t_mute (tracks (fold host_exec (set_mute_each b n) h) ! i)
                   = Some (if b then 1 else 0))"
proof (induction n)
  case 0
  then show ?case by (simp add: set_mute_each_def)
next
  case (Suc n)
  define h1 where "h1 = fold host_exec (set_mute_each b n) h"
  from Suc have len1: "length (tracks h1) = length (tracks h)"
    and m1: "\<forall>i < n. t_mute (tracks h1 ! i) = Some (if b then 1 else 0)"
    by (simp_all add: h1_def)
  from Suc.prems len1 have k: "n < length (tracks h1)" by simp
  have step: "fold host_exec (set_mute_each b (Suc n)) h
      = fold host_exec [Select_tracks (int n) 1 ''Set'', Set_track_audio (Some b) None None None] h1"
    by (simp add: set_mute_each_Suc h1_def)
  note one = mute_one [OF k refl, where b = b]
  show ?case
    unfolding step
  proof (intro conjI allI impI)
    show "length (tracks (fold host_exec
        [Select_tracks (int n) 1 ''Set'', Set_track_audio (Some b) None None None] h1))
        = length (tracks h)"
      using one(1) len1 by simp
  next
    fix i assume "i < Suc n"
    then consider "i = n" | "i < n" by linarith
    then show "t_mute (tracks (fold host_exec
        [Select_tracks (int n) 1 ''Set'', Set_track_audio (Some b) None None None] h1) ! i)
        = Some (if b then 1 else 0)"
    proof cases
      case 1
      then show ?thesis using one(2) by simp
    next
      case 2
      with k have "i < length (tracks h1)" "i \<noteq> n" by simp_all
      from one(3) [OF this] m1 2 show ?thesis by simp
    qed
  qed
qed

lemma track_plan_no_new_track:
  "New_stereo_track \<notin> set (track_plan d b e ts)"
  by (auto simp: track_plan_def track_requests_def set_mute_each_def)

text \<open>
  C2 (as amended). In a run over one or more tracks in which no command fails, the
  workflow ends normally, the last commands it sends are the unmuting of every track, and
  afterwards every track of the project is unmuted.
\<close>

theorem export_tracks_restores_when_nothing_fails:
  assumes "pipes_exist w" and "\<forall>f \<in> set (script w). f = Ok" and "tracks (app w) \<noteq> []"
  shows "\<exists>w'. export_tracks_individually fr output_dir base_filename file_extension w
                = (Finished, w')
           \<and> length (tracks (app w')) = length (tracks (app w))
           \<and> (\<forall>t \<in> set (tracks (app w')). t_mute t = Some 0)
           \<and> (\<exists>before. sent w' = before
                 @ map (wire fr) (set_mute_each False (length (tracks (app w)))))"
proof -
  define n where "n = length (tracks (app w))"
  define plan where "plan = track_plan output_dir base_filename file_extension (tracks (app w))"
  define w1 where "w1 = delivered fr (Get_info ''Tracks'') w"
  define w' where "w' = advance fr (plan @ set_mute_each False n) w1"
  have nf: "next_fault w = Ok"
    using assms(2) by (cases "script w") (simp_all add: next_fault_def)
  have ok1: "\<forall>f \<in> set (take (length (plan @ set_mute_each False n)) (script w1)). f = Ok"
    using assms(2) by (cases "script w") (auto simp: w1_def delivered_def dest: in_set_takeD)
  have run: "export_tracks_individually fr output_dir base_filename file_extension w
               = (Finished, w')"
    unfolding export_tracks_individually_plan [OF assms(1) nf assms(3)]
    by (simp add: run_requests_ok [OF ok1, unfolded plan_def n_def w1_def]
        w'_def plan_def n_def w1_def)
  define h2 where "h2 = fold host_exec plan (app w1)"
  have app1: "tracks (app w1) = tracks (app w)" by (simp add: w1_def delivered_def)
  have len2: "length (tracks h2) = n"
    unfolding h2_def plan_def
    by (simp add: fold_host_exec_length [OF track_plan_no_new_track] app1 n_def)
  have app': "app w' = fold host_exec (set_mute_each False n) h2"
    by (simp add: w'_def h2_def)
  from set_mute_each_result [of n h2 False] len2
  have len': "length (tracks (app w')) = n"
    and m: "\<forall>i < n. t_mute (tracks (app w') ! i) = Some 0"
    by (simp_all add: app')
  have all: "\<forall>t \<in> set (tracks (app w')). t_mute t = Some 0"
    using m len' by (auto simp: in_set_conv_nth)
  have "sent w' = (sent w1 @ map (wire fr) plan) @ map (wire fr) (set_mute_each False n)"
    by (simp add: w'_def)
  then have "\<exists>before. sent w' = before @ map (wire fr) (set_mute_each False n)"
    by blast
  with run len' all show ?thesis unfolding n_def by blast
qed

theorem export_tracks_restores_when_nothing_fails_witness:
  "pipes_exist two_tracks \<and> script two_tracks = [] \<and> tracks (app two_tracks) \<noteq> []
   \<and> fst (export_tracks_individually no_repr ''out'' ''track'' ''wav'' two_tracks) = Finished
   \<and> list_all (\<lambda>t. t_mute t = Some 0)
        (tracks (app (snd (export_tracks_individually no_repr ''out'' ''track'' ''wav'' two_tracks))))"
proof -
  have h: "pipes_exist two_tracks" "\<forall>f \<in> set (script two_tracks). f = Ok"
    "tracks (app two_tracks) \<noteq> []" "script two_tracks = []"
    by (simp_all add: two_tracks_def)
  from export_tracks_restores_when_nothing_fails [OF h(1,2,3), of no_repr "''out''" "''track''" "''wav''"]
  obtain w' where "export_tracks_individually no_repr ''out'' ''track'' ''wav'' two_tracks = (Finished, w')"
    "\<forall>t \<in> set (tracks (app w')). t_mute t = Some 0"
    by blast
  with h show ?thesis by (simp add: list_all_iff)
qed

text \<open>
  C2 (as stated) fails: the restore pass is ordinary code after the loop, not a
  \<open>finally\<close>. In a project of two tracks, when the answer to the export of the first
  track does not arrive, the workflow exits with status 1 and the second track stays
  muted.
\<close>

theorem export_tracks_failure_leaves_track_muted:
  "fst (export_tracks_individually no_repr ''out'' ''track'' ''wav''
          (two_tracks\<lparr>script := replicate 8 Ok @ [Receive_fails]\<rparr>)) = Exit_1
   \<and> map t_mute (tracks (app (snd (export_tracks_individually no_repr ''out'' ''track'' ''wav''
          (two_tracks\<lparr>script := replicate 8 Ok @ [Receive_fails]\<rparr>)))))
       = [Some 0, Some 1]"
  by code_simp















subsection \<open>The clip workflow: which clips are exported\<close>





lemma unique_output_path_total:
  "\<exists>path. unique_output_path fs d p s e = Some path"
  unfolding unique_output_path_def by (rule resolve_collision_total)





lemma delivered_fields [simp]:
  "script (delivered fr req w) = tl (script w)"
  "sent (delivered fr req w) = sent w @ [wire fr req]"
  "app (delivered fr req w) = host_exec req (app w)"
  "printed (delivered fr req w) = printed w"
  "pipes_exist (delivered fr req w) = pipes_exist w"
  by (simp_all add: delivered_def)




lemma studio_run:
  "case export_clips_individually no_repr ''out'' ''take_'' ''flac'' studio of
     None \<Rightarrow> False
   | Some (out, n, w') \<Rightarrow> out = Finished \<and> n = 2
       \<and> files (app w') = [''out/take_Chorus.flac'', ''out/take_My_Clip_.flac'']
       \<and> length (filter (\<lambda>x. x = delete) (sent w')) = 2"
  by code_simp



lemma exports_sent_Nil [simp]: "exports_sent [] = 0"
  by (simp add: exports_sent_def)















lemma tracks_host_exec_setup:
  "length (tracks (host_exec New_stereo_track h)) = Suc (length (tracks h))"
  by simp



lemma included_by_spec_passes:
  "included_by_spec ts c \<Longrightarrow> passes_filters ts c"
  by (auto simp: included_by_spec_def passes_filters_def split: option.splits)





subsection \<open>The clip workflow: clearing the scratch track\<close>

lemma scratch_cleared_Nil [simp]: "scratch_cleared fr temp []"
  by (simp add: scratch_cleared_def)

lemma scratch_cleared_plain:
  "delete \<notin> set xs \<Longrightarrow> paste \<notin> set xs \<Longrightarrow> scratch_cleared fr temp xs"
  unfolding scratch_cleared_def by (metis nth_mem)

lemma scratch_cleared_take:
  "scratch_cleared fr temp xs \<Longrightarrow> scratch_cleared fr temp (take m xs)"
  by (auto simp: scratch_cleared_def)

lemma scratch_cleared_append:
  assumes "scratch_cleared fr temp xs" "scratch_cleared fr temp ys"
  shows "scratch_cleared fr temp (xs @ ys)"
  unfolding scratch_cleared_def
proof (intro allI impI)
  fix i assume i: "i < length (xs @ ys)"
  show "((xs @ ys) ! i = delete \<longrightarrow>
           2 \<le> i \<and> (xs @ ys) ! (i - 1) = select_time fr (PyInt 0) (PyInt 100) ''ProjectStart''
           \<and> (xs @ ys) ! (i - 2) = select_tracks temp 1 ''Set'')
        \<and> ((xs @ ys) ! i = paste \<longrightarrow> 3 \<le> i \<and> (xs @ ys) ! (i - 3) = delete)"
  proof (cases "i < length xs")
    case True
    with assms(1) show ?thesis
      by (auto simp: scratch_cleared_def nth_append)
  next
    case False
    define j where "j = i - length xs"
    have j: "j < length ys" "i = length xs + j" using i False by (simp_all add: j_def)
    from assms(2) j(1) have
      d: "ys ! j = delete \<longrightarrow>
           2 \<le> j \<and> ys ! (j - 1) = select_time fr (PyInt 0) (PyInt 100) ''ProjectStart''
           \<and> ys ! (j - 2) = select_tracks temp 1 ''Set''"
      and p: "ys ! j = paste \<longrightarrow> 3 \<le> j \<and> ys ! (j - 3) = delete"
      by (simp_all add: scratch_cleared_def)
    have n0: "(xs @ ys) ! i = ys ! j" by (simp add: j(2))
    have shifted: "(xs @ ys) ! (i - m) = ys ! (j - m)" if "m \<le> j" for m
    proof -
      from that have "i - m = length xs + (j - m)" by (simp add: j(2))
      then show ?thesis by (simp only: nth_append_length_plus)
    qed
    have n1: "2 \<le> j \<Longrightarrow> (xs @ ys) ! (i - 1) = ys ! (j - 1)"
      "2 \<le> j \<Longrightarrow> (xs @ ys) ! (i - 2) = ys ! (j - 2)"
      "3 \<le> j \<Longrightarrow> (xs @ ys) ! (i - 3) = ys ! (j - 3)"
      by (simp_all add: shifted)
    show ?thesis
      unfolding n0 using d p n1 j(2) by auto
  qed
qed

lemma wire_not_delete:
  "req \<noteq> Delete \<Longrightarrow> wire fr req \<noteq> delete"
  by (cases req)
    (simp_all add: delete_def get_info_def select_tracks_def set_track_audio_def with_params_def
      select_all_def select_none_def select_time_def export_audio_def new_stereo_track_def
      copy_def paste_def Let_def)

lemma wire_not_paste:
  "req \<noteq> Paste \<Longrightarrow> wire fr req \<noteq> paste"
  by (cases req)
    (simp_all add: delete_def get_info_def select_tracks_def set_track_audio_def with_params_def
      select_all_def select_none_def select_time_def export_audio_def new_stereo_track_def
      copy_def paste_def Let_def)

lemma scratch_cleared_requests:
  "Delete \<notin> set reqs \<Longrightarrow> Paste \<notin> set reqs \<Longrightarrow> scratch_cleared fr temp (map (wire fr) reqs)"
proof (rule scratch_cleared_plain)
  assume a: "Delete \<notin> set reqs" "Paste \<notin> set reqs"
  show "delete \<notin> set (map (wire fr) reqs)"
  proof
    assume "delete \<in> set (map (wire fr) reqs)"
    then obtain x where x: "x \<in> set reqs" "wire fr x = delete" by auto
    with wire_not_delete [of x fr] have "x = Delete" by blast
    with x(1) a(1) show False by simp
  qed
  show "paste \<notin> set (map (wire fr) reqs)"
  proof
    assume "paste \<in> set (map (wire fr) reqs)"
    then obtain x where x: "x \<in> set reqs" "wire fr x = paste" by auto
    with wire_not_paste [of x fr] have "x = Paste" by blast
    with x(1) a(2) show False by simp
  qed
qed

lemma scratch_cleared_clearing:
  "scratch_cleared fr temp
     (map (wire fr) [Select_tracks temp 1 ''Set'',
                     Select_time (PyInt 0) (PyInt 100) ''ProjectStart'', Delete,
                     Select_none, Select_tracks temp 1 ''Set'', Paste])"
proof -
  have ne: "select_tracks temp 1 ''Set'' \<noteq> delete" "select_tracks temp 1 ''Set'' \<noteq> paste"
    "select_time fr (PyInt 0) (PyInt 100) ''ProjectStart'' \<noteq> delete"
    "select_time fr (PyInt 0) (PyInt 100) ''ProjectStart'' \<noteq> paste"
    "select_none \<noteq> delete" "select_none \<noteq> paste" "delete \<noteq> paste" "paste \<noteq> delete"
    by (simp_all add: select_tracks_def select_time_def select_none_def delete_def paste_def)
  show ?thesis
    unfolding scratch_cleared_def
    by (simp add: All_less_Suc eval_nat_numeral ne)
qed

lemma clip_requests_split:
  "clip_requests temp c path =
     [Select_none, Select_tracks (track_idx c) 1 ''Set'',
      Select_time (start_time c) (end_time c) ''ProjectStart'', Copy, Select_none]
     @ [Select_tracks temp 1 ''Set'',
        Select_time (PyInt 0) (PyInt 100) ''ProjectStart'', Delete,
        Select_none, Select_tracks temp 1 ''Set'', Paste]
     @ [Select_none, Select_tracks temp 1 ''Set'',
        Select_time (PyInt 0) (py_sub (end_time c) (start_time c)) ''ProjectStart'',
        Export_audio path 2]"
  by (simp add: clip_requests_def)

lemma scratch_cleared_clip_requests:
  "scratch_cleared fr temp (map (wire fr) (clip_requests temp c path))"
  unfolding clip_requests_split map_append
  by (intro scratch_cleared_append scratch_cleared_clearing scratch_cleared_requests) simp_all

lemma do_command_sent:
  "sent (snd (do_command fr req w)) = sent w
   \<or> sent (snd (do_command fr req w)) = sent w @ [wire fr req]"
  by (cases "next_fault w") (simp_all add: do_command_def delivered_def)

lemma run_requests_sent:
  "\<exists>m. sent (snd (run_requests fr reqs w)) = sent w @ map (wire fr) (take m reqs)"
proof (induction reqs arbitrary: w)
  case Nil
  then show ?case by simp
next
  case (Cons req reqs)
  obtain r w1 where d: "do_command fr req w = (r, w1)" by (cases "do_command fr req w")
  from do_command_sent [of fr req w] d
  have s1: "sent w1 = sent w \<or> sent w1 = sent w @ [wire fr req]" by simp
  show ?case
  proof (cases r)
    case (Inl e)
    from s1 show ?thesis
    proof
      assume "sent w1 = sent w"
      then have "sent (snd (run_requests fr (req # reqs) w))
                  = sent w @ map (wire fr) (take 0 (req # reqs))"
        by (simp add: d Inl)
      then show ?thesis by blast
    next
      assume "sent w1 = sent w @ [wire fr req]"
      then have "sent (snd (run_requests fr (req # reqs) w))
                  = sent w @ map (wire fr) (take 1 (req # reqs))"
        by (simp add: d Inl)
      then show ?thesis by blast
    qed
  next
    case (Inr x)
    then have s: "sent w1 = sent w @ [wire fr req]"
      using d by (cases "next_fault w") (auto simp: do_command_def delivered_def)
    from Cons.IH [of w1] obtain m where
      "sent (snd (run_requests fr reqs w1)) = sent w1 @ map (wire fr) (take m reqs)"
      by blast
    then have "sent (snd (run_requests fr (req # reqs) w))
                = sent w @ map (wire fr) (take (Suc m) (req # reqs))"
      by (simp add: d Inr s)
    then show ?thesis by blast
  qed
qed

lemma run_requests_cleared:
  assumes "scratch_cleared fr temp (sent w)" "scratch_cleared fr temp (map (wire fr) reqs)"
  shows "scratch_cleared fr temp (sent (snd (run_requests fr reqs w)))"
proof -
  from run_requests_sent [of fr reqs w] obtain m where
    m: "sent (snd (run_requests fr reqs w)) = sent w @ map (wire fr) (take m reqs)"
    by blast
  have "scratch_cleared fr temp (take m (map (wire fr) reqs))"
    using assms(2) by (rule scratch_cleared_take)
  then show ?thesis
    unfolding m using assms(1) by (simp add: take_map scratch_cleared_append)
qed

lemma do_command_cleared:
  assumes "scratch_cleared fr temp (sent w)" "req \<noteq> Delete" "req \<noteq> Paste"
  shows "scratch_cleared fr temp (sent (snd (do_command fr req w)))"
proof -
  have "scratch_cleared fr temp (map (wire fr) [req])"
    using assms(2,3) by (intro scratch_cleared_requests) auto
  with assms(1) have "scratch_cleared fr temp (sent w @ [wire fr req])"
    using scratch_cleared_append by fastforce
  with assms(1) do_command_sent [of fr req w] show ?thesis by auto
qed

lemma export_clips_loop_cleared:
  assumes "scratch_cleared fr temp (sent w)"
  shows "\<exists>n w'. export_clips_loop fr d p e temp items k w = Some (n, w')
            \<and> scratch_cleared fr temp (sent w')"
  using assms
proof (induction items arbitrary: k w)
  case Nil
  then show ?case by simp
next
  case (Cons a items)
  obtain i c where a: "a = (i, c)" by (cases a)
  show ?case
  proof (cases "invalid_data c")
    case True
    define w1 where "w1 = w\<lparr>printed := printed w @ [Skipped_invalid c]\<rparr>"
    have "scratch_cleared fr temp (sent w1)" using Cons.prems by (simp add: w1_def)
    from Cons.IH [OF this, of k] True show ?thesis by (simp add: a w1_def)
  next
    case False
    obtain path where path: "unique_output_path (files (app w)) d p
        (sanitize_filename (clip_name i c)) e = Some path"
      using unique_output_path_total by blast
    obtain r w0 where run: "run_requests fr (clip_requests temp c path) w = (r, w0)"
      by (cases "run_requests fr (clip_requests temp c path) w")
    have c0: "scratch_cleared fr temp (sent w0)"
      using run_requests_cleared [OF Cons.prems scratch_cleared_clip_requests, of c path] run
      by simp
    show ?thesis
    proof (cases r)
      case (Inl err)
      define w1 where "w1 = w0\<lparr>printed := printed w0 @ [Export_failed c]\<rparr>"
      have "scratch_cleared fr temp (sent w1)" using c0 by (simp add: w1_def)
      from Cons.IH [OF this, of k] False show ?thesis
        by (simp add: a path run Inl w1_def)
    next
      case (Inr u)
      define w1 where "w1 = w0\<lparr>printed := printed w0 @ [Exported c path]\<rparr>"
      have "scratch_cleared fr temp (sent w1)" using c0 by (simp add: w1_def)
      from Cons.IH [OF this, of "k + 1"] False show ?thesis
        by (simp add: a path run Inr w1_def)
    qed
  qed
qed

lemma do_command_Inr:
  "do_command fr req w = (Inr x, w') \<Longrightarrow>
   w' = delivered fr req w \<and> (x = host_reply req (app w) \<or> x = Not_json)"
  by (cases "next_fault w") (auto simp: do_command_def)

lemma setup_requests_plain:
  "Delete \<notin> set (setup_requests n temp)" "Paste \<notin> set (setup_requests n temp)"
  by (auto simp: setup_requests_def)

lemma export_staged_cleared:
  assumes "scratch_cleared fr (int (length (tracks (app w3)))) (sent w3)"
  shows "\<exists>out n w'. export_staged fr d p e cte w3 = Some (out, n, w')
           \<and> scratch_cleared fr (int (length (tracks (app w3)))) (sent w')"
proof -
  let ?T = "int (length (tracks (app w3)))"
  obtain r4 w4 where c4: "do_command fr New_stereo_track w3 = (r4, w4)"
    by (cases "do_command fr New_stereo_track w3")
  have k4: "scratch_cleared fr ?T (sent w4)"
    using do_command_cleared [OF assms, of New_stereo_track] c4 by simp
  show ?thesis
  proof (cases r4)
    case (Inl err)
    then show ?thesis using k4 by (simp add: export_staged_def c4)
  next
    case r4: (Inr x4)
    from do_command_Inr [OF c4 [unfolded r4]]
    have t4: "tracks (app w4) = tracks (app w3) @ [\<lparr>t_name = Some ''Audio Track'', t_mute = Some 0\<rparr>]"
      by simp
    obtain r5 w5 where c5: "do_command fr (Get_info ''Tracks'') w4 = (r5, w5)"
      by (cases "do_command fr (Get_info ''Tracks'') w4")
    have k5: "scratch_cleared fr ?T (sent w5)"
      using do_command_cleared [OF k4, of "Get_info ''Tracks''"] c5 by simp
    show ?thesis
    proof (cases r5)
      case (Inl err)
      then show ?thesis using k5 by (simp add: export_staged_def c4 r4 c5)
    next
      case r5: (Inr x5)
      from do_command_Inr [OF c5 [unfolded r5]]
      have x5: "x5 = Tracks_json (tracks (app w4)) \<or> x5 = Not_json" by simp
      show ?thesis
      proof (cases "json_tracks x5")
        case None
        then show ?thesis using k5 by (simp add: export_staged_def c4 r4 c5 r5)
      next
        case (Some tsu)
        with x5 have tsu: "tsu = tracks (app w4)" by (auto simp: json_tracks_def)
        have temp: "int (length tsu) - 1 = ?T" by (simp add: tsu t4)
        obtain r6 w6 where c6: "run_requests fr (setup_requests (length tsu) ?T) w5 = (r6, w6)"
          by (cases "run_requests fr (setup_requests (length tsu) ?T) w5")
        have k6: "scratch_cleared fr ?T (sent w6)"
          using run_requests_cleared [OF k5 scratch_cleared_requests [OF setup_requests_plain],
              of "length tsu" ?T] c6
          by simp
        show ?thesis
        proof (cases r6)
          case (Inl err)
          then show ?thesis
            using k6 by (simp add: export_staged_def c4 r4 c5 r5 Some Let_def temp c6)
        next
          case r6: (Inr u)
          from export_clips_loop_cleared [OF k6, of d p e "enumerate 1 cte" 0]
          obtain n w' where "export_clips_loop fr d p e ?T (enumerate 1 cte) 0 w6 = Some (n, w')"
            "scratch_cleared fr ?T (sent w')"
            by blast
          then show ?thesis
            by (simp add: export_staged_def c4 r4 c5 r5 Some Let_def temp c6 r6)
        qed
      qed
    qed
  qed
qed

text \<open>
  C10. Whatever the clips are and whatever happens to the commands, the workflow returns,
  and in what it has sent every \<open>Delete:\<close> comes right after the scratch track (the
  track added at the end of the project) and the time range from 0 to 100 were selected,
  and every \<open>Paste:\<close> comes after such a \<open>Delete:\<close>: the range cleared does not
  depend on the clips, and no other range is ever deleted.
\<close>

theorem export_clips_clears_fixed_range:
  assumes "sent w = []"
  shows "\<exists>out n w'. export_clips_individually fr output_dir pfx file_extension w
                      = Some (out, n, w')
           \<and> scratch_cleared fr (int (length (tracks (app w)))) (sent w')"
proof (cases "pipes_exist w")
  case False
  then show ?thesis using assms by (simp add: export_clips_individually_def)
next
  case True
  let ?T = "int (length (tracks (app w)))"
  have k0: "scratch_cleared fr ?T (sent w)" using assms by simp
  obtain r1 w1 where c1: "do_command fr (Get_info ''Tracks'') w = (r1, w1)"
    by (cases "do_command fr (Get_info ''Tracks'') w")
  have k1: "scratch_cleared fr ?T (sent w1)"
    using do_command_cleared [OF k0, of "Get_info ''Tracks''"] c1 by simp
  show ?thesis
  proof (cases r1)
    case (Inl err)
    then show ?thesis using k1 True by (simp add: export_clips_individually_def c1)
  next
    case r1: (Inr x1)
    from do_command_Inr [OF c1 [unfolded r1]] have a1: "app w1 = app w" by simp
    show ?thesis
    proof (cases "json_tracks x1")
      case None
      then show ?thesis using k1 True by (simp add: export_clips_individually_def c1 r1)
    next
      case ts: (Some tracks_data)
      obtain r2 w2 where c2: "do_command fr (Get_info ''Clips'') w1 = (r2, w2)"
        by (cases "do_command fr (Get_info ''Clips'') w1")
      have k2: "scratch_cleared fr ?T (sent w2)"
        using do_command_cleared [OF k1, of "Get_info ''Clips''"] c2 by simp
      show ?thesis
      proof (cases r2)
        case (Inl err)
        then show ?thesis using k2 True by (simp add: export_clips_individually_def c1 r1 ts c2)
      next
        case r2: (Inr x2)
        from do_command_Inr [OF c2 [unfolded r2]] a1 have a2: "app w2 = app w" by simp
        show ?thesis
        proof (cases "json_clips x2")
          case None
          then show ?thesis
            using k2 True by (simp add: export_clips_individually_def c1 r1 ts c2 r2)
        next
          case cs: (Some clips_data)
          define status where "status = track_mute_status tracks_data"
          define cte where "cte = filter (\<lambda>clip. \<not> is_muted status clip) clips_data"
          define w3 where "w3 = w2\<lparr>printed := printed w2
              @ map Skipped_muted (filter (is_muted status) clips_data)\<rparr>"
          have a3: "app w3 = app w" "sent w3 = sent w2" by (simp_all add: w3_def a2)
          have k3: "scratch_cleared fr (int (length (tracks (app w3)))) (sent w3)"
            using k2 by (simp add: a3)
          have run: "export_clips_individually fr output_dir pfx file_extension w =
              (if clips_data = [] then Some (No_clips, 0, w2)
               else if cte = [] then Some (No_unmuted_clips, 0, w3)
               else export_staged fr output_dir pfx file_extension cte w3)"
            using True
            by (simp add: export_clips_individually_def c1 r1 ts c2 r2 cs export_filtered_def
                Let_def status_def [symmetric] cte_def [symmetric] w3_def [symmetric])
          from export_staged_cleared [OF k3, of output_dir pfx file_extension cte]
          obtain out n w' where
            "export_staged fr output_dir pfx file_extension cte w3 = Some (out, n, w')"
            "scratch_cleared fr ?T (sent w')"
            by (auto simp: a3)
          with k2 a3 show ?thesis by (auto simp: run)
        qed
      qed
    qed
  qed
qed

theorem export_clips_clears_fixed_range_witness:
  "sent studio = []
   \<and> (\<exists>out n w'. export_clips_individually no_repr ''out'' ''take_'' ''flac'' studio
                    = Some (out, n, w')
         \<and> scratch_cleared no_repr 2 (sent w')
         \<and> delete \<in> set (sent w'))"
proof -
  have h: "sent studio = []" by (simp add: studio_def)
  have t: "int (length (tracks (app studio))) = 2" by (simp add: studio_def)
  from export_clips_clears_fixed_range [OF h, of no_repr "''out''" "''take_''" "''flac''"]
  obtain out n w' where r:
    "export_clips_individually no_repr ''out'' ''take_'' ''flac'' studio = Some (out, n, w')"
    "scratch_cleared no_repr 2 (sent w')"
    unfolding t by blast
  from studio_run r(1) have "length (filter (\<lambda>x. x = delete) (sent w')) = 2" by simp
  then have "filter (\<lambda>x. x = delete) (sent w') \<noteq> []" by auto
  then have "delete \<in> set (sent w')" by (auto simp: filter_empty_conv)
  with h r show ?thesis by blast
qed

subsection \<open>Sanitising a file name\<close>

lemma strip_by_set: "set (strip_by P s) \<subseteq> set s"
  by (rule set_mono_sublist) (rule strip_by_sublist)

text \<open>
  As long as the stripped name has at most 200 characters, nothing is cut and a second
  pass changes nothing.
\<close>

lemma sanitize_filename_idempotent_short:
  assumes "length (py_strip_chars ''. ''
             (map (\<lambda>c. if c \<in> set invalid_chars then CHR ''_'' else c) s)) \<le> 200"
  shows "sanitize_filename (sanitize_filename s) = sanitize_filename s"
proof -
  define f where "f = (\<lambda>c. if c \<in> set invalid_chars then CHR ''_'' else c)"
  define x where "x = py_strip_chars ''. '' (map f s)"
  have len: "length x \<le> 200" using assms by (simp add: x_def f_def)
  have un: "sanitize_filename ''unnamed'' = ''unnamed''" by code_simp
  have first: "sanitize_filename s = (if x = [] then ''unnamed'' else x)"
    using len by (simp add: sanitize_filename_def Let_def x_def f_def)
  have ff: "f (f c) = f c" for c by (simp add: f_def invalid_chars_def)
  have "set x \<subseteq> set (map f s)" unfolding x_def py_strip_chars_def by (rule strip_by_set)
  then have "\<forall>c \<in> set x. f c = c" by (auto simp: ff)
  then have mx: "map f x = x" by (simp add: map_idI)
  have sx: "py_strip_chars ''. '' x = x"
    unfolding x_def py_strip_chars_def by (rule strip_by_idem)
  have "sanitize_filename x = x" if "x \<noteq> []"
    using that len mx sx by (simp add: sanitize_filename_def Let_def f_def [symmetric])
  with un show ?thesis by (simp add: first)
qed

lemma sanitize_filename_long:
  "sanitize_filename (replicate 199 (CHR ''a'') @ '' b'') = replicate 199 (CHR ''a'') @ '' ''"
  by code_simp

lemma sanitize_filename_again:
  "sanitize_filename (replicate 199 (CHR ''a'') @ '' '') = replicate 199 (CHR ''a'')"
  by code_simp

text \<open>
  C8. Sanitising is claimed to be idempotent. The name is stripped of leading and trailing
  dots and spaces before it is cut to 200 characters, so the cut can leave a trailing
  space behind, which the comment of the stripping step and the docstring (a name safe on
  all platforms) rule out: for 199 letters followed by a space and one more letter, the
  second pass removes a space that the first pass returned.
\<close>

theorem sanitize_filename_not_idempotent:
  "sanitize_filename (sanitize_filename (replicate 199 (CHR ''a'') @ '' b''))
     \<noteq> sanitize_filename (replicate 199 (CHR ''a'') @ '' b'')"
  by (simp only: sanitize_filename_long sanitize_filename_again) simp

end
